theory Spec2Isabelle
  imports Complex_Main
begin

section \<open>The CPU Adam driver of \<^verbatim>\<open>deepspeed/ops/adam/cpu_adam.py\<close>\<close>

text \<open>
  The class \<^verbatim>\<open>DeepSpeedCPUAdam\<close> is embedded with explicit state passing.
  What Python keeps in class attributes, in the build-cache directory and inside the
  native module is one record \<open>sys\<close>; the optimizer's own dictionaries and
  the caller's tensors are passed beside it. Everything outside the repository that the
  code calls is a parameter of the model:
  \<^item> the other processes that share the build-cache directory (\<open>world\<close>),
  \<^item> \<^verbatim>\<open>torch.utils.cpp_extension.load\<close> (\<open>jit\<close>),
  \<^item> the native kernel behind the loaded module (\<open>kern\<close>),
  \<^item> the caller's closure.
  Every call made to them is appended to the event log \<open>events\<close>.
  Directory creation and \<^verbatim>\<open>touch\<close> are taken to succeed. An operation that may
  wait for another process returns an \<open>option\<close>: \<open>None\<close> is the call that
  never returns. An exception is a value \<open>Inl e\<close> (or \<open>Some e\<close> beside the
  memory it leaves behind).
\<close>

subsection \<open>Tensors\<close>

datatype dtype = Float16 | BFloat16 | Float32 | Float64

datatype device = CPU | CUDA nat

record 'a tensor =
  shape :: "nat list"
  dtype :: dtype
  device :: device
  elems :: "'a list"

definition numel :: "'a tensor \<Rightarrow> nat" where
  "numel t = prod_list (shape t)"

text \<open>\<^verbatim>\<open>torch.zeros_like(t, device='cpu')\<close>: the shape and dtype of \<open>t\<close>, on the host.\<close>

definition zeros_like_cpu :: "'a::zero tensor \<Rightarrow> 'a tensor" where
  "zeros_like_cpu t =
     \<lparr>shape = shape t, dtype = dtype t, device = CPU, elems = replicate (numel t) 0\<rparr>"

subsection \<open>Process state, build-cache directory and event log\<close>

type_synonym handle = nat
type_synonym pid = nat

datatype error = BuildError | IndexError | ValueError | KernelError | ShapeError | ClosureError

record markers =
  started_file :: bool
  done_file :: bool

datatype 'a event =
    MakeDirs
  | Sleep nat
  | TouchStarted
  | JitLoad
  | TouchDone
  | CreateAdam handle int 'a 'a 'a 'a 'a
  | PrintState nat nat nat
  | AdamUpdate handle int pid "'a tensor" "'a tensor" "'a tensor" "'a tensor"
  | AdamUpdateCopy handle int pid "'a tensor" "'a tensor" "'a tensor" "'a tensor"
      "nat \<times> nat" "'a tensor"

record ('a, 'k) sys =
  fs :: markers
  clock :: nat
  optimizer_id :: int
  ds_opt_adam :: "handle option"
  kstate :: 'k
  events :: "'a event list"

text \<open>
  \<open>world n\<close> is what the other processes did to the two marker files before this
  process looks at the directory for the \<open>n\<close>-th time. Each \<^verbatim>\<open>os.path.isfile\<close>
  is one look.
\<close>

type_synonym world = "nat \<Rightarrow> markers \<Rightarrow> markers"

definition observe :: "world \<Rightarrow> ('a, 'k) sys \<Rightarrow> ('a, 'k) sys" where
  "observe W s = s\<lparr>fs := W (clock s) (fs s), clock := Suc (clock s)\<rparr>"

definition emit :: "'a event \<Rightarrow> ('a, 'k) sys \<Rightarrow> ('a, 'k) sys" where
  "emit e s = s\<lparr>events := events s @ [e]\<rparr>"

definition sleep :: "nat \<Rightarrow> ('a, 'k) sys \<Rightarrow> ('a, 'k) sys" where
  "sleep n s = emit (Sleep n) s"

definition makedirs :: "('a, 'k) sys \<Rightarrow> ('a, 'k) sys" where
  "makedirs s = emit MakeDirs s"

definition touch_started :: "('a, 'k) sys \<Rightarrow> ('a, 'k) sys" where
  "touch_started s = emit TouchStarted (s\<lparr>fs := (fs s)\<lparr>started_file := True\<rparr>\<rparr>)"

definition touch_done :: "('a, 'k) sys \<Rightarrow> ('a, 'k) sys" where
  "touch_done s = emit TouchDone (s\<lparr>fs := (fs s)\<lparr>done_file := True\<rparr>\<rparr>)"

subsection \<open>\<^verbatim>\<open>wait_if_build_started\<close> and \<^verbatim>\<open>load_op\<close>\<close>

text \<open>
  \<^verbatim>\<open>while not os.path.isfile(done): time.sleep(1000)\<close>. The loop may run forever;
  \<open>None\<close> is the call that never returns.
\<close>

partial_function (option) wait_loop :: "world \<Rightarrow> ('a, 'k) sys \<Rightarrow> ('a, 'k) sys option" where
  "wait_loop W s =
     (if done_file (fs (observe W s)) then Some (observe W s)
      else wait_loop W (sleep 1000 (observe W s)))"

declare wait_loop.simps [code]

definition wait_if_build_started :: "world \<Rightarrow> ('a, 'k) sys \<Rightarrow> ('a, 'k) sys option" where
  "wait_if_build_started W s =
     (if started_file (fs (observe W s)) then wait_loop W (observe W s)
      else Some (observe W s))"

text \<open>
  \<open>jit\<close> stands for lines 54 to 88: the include and library paths are formed from
  torch's \<^verbatim>\<open>CUDA_HOME\<close>, and \<^verbatim>\<open>torch.utils.cpp_extension.load\<close> is called with
  the name, the sources and the compiler flags of the kernel. This is the only place
  where the code hands sources and flags to the toolchain. It raises or returns the
  module; what the loader does with an artifact that is already built is torch's matter.
\<close>

type_synonym ('a, 'k) jit = "('a, 'k) sys \<Rightarrow> error + handle"

text \<open>Lines 52 to 89 of the source: what \<^verbatim>\<open>load_op\<close> does once the wait is over.\<close>

definition build :: "('a, 'k) jit \<Rightarrow> ('a, 'k) sys \<Rightarrow> (error + handle) \<times> ('a, 'k) sys" where
  "build jit s1 =
     (let s2 = emit JitLoad (touch_started s1) in
      case jit s2 of
        Inl e \<Rightarrow> (Inl e, s2)
      | Inr h \<Rightarrow> (Inr h, touch_done (s2\<lparr>ds_opt_adam := Some h\<rparr>)))"

definition load_op ::
  "world \<Rightarrow> ('a, 'k) jit \<Rightarrow> ('a, 'k) sys \<Rightarrow> ((error + handle) \<times> ('a, 'k) sys) option" where
  "load_op W jit s =
     (case ds_opt_adam s of
        Some h \<Rightarrow> Some (Inr h, s)
      | None \<Rightarrow>
          (case wait_if_build_started W (makedirs s) of
             None \<Rightarrow> None
           | Some s1 \<Rightarrow> Some (build jit s1)))"

text \<open>The marker files as this process finds them at its \<open>n\<close>-th further look, while it
  writes nothing itself.\<close>

fun fs_after :: "world \<Rightarrow> nat \<Rightarrow> markers \<Rightarrow> nat \<Rightarrow> markers" where
  "fs_after W c m 0 = m"
| "fs_after W c m (Suc n) = W (c + n) (fs_after W c m n)"

text \<open>The state in which the \<open>k\<close>-th test of the wait loop finds the process
  (\<open>k\<close> sleeps after the loop was entered in \<open>s\<close>).\<close>

fun poll :: "world \<Rightarrow> ('a, 'k) sys \<Rightarrow> nat \<Rightarrow> ('a, 'k) sys" where
  "poll W s 0 = observe W s"
| "poll W s (Suc k) = poll W (sleep 1000 (observe W s)) k"

subsection \<open>Parameters, optimizer objects and the native kernel\<close>

text \<open>
  A parameter is known by its identity \<open>pid\<close>; the heap holds what the caller's
  tensor objects contain. \<^verbatim>\<open>self.state\<close> is a dictionary of dictionaries:
  \<open>None\<close> is the empty entry (\<^verbatim>\<open>len(state) == 0\<close>).
\<close>

record 'a param =
  data :: "'a tensor"
  grad :: "'a tensor option"

type_synonym 'a heap = "pid \<Rightarrow> 'a param"

record 'a param_state =
  step_count :: int
  exp_avg :: "'a tensor"
  exp_avg_sq :: "'a tensor"

record 'a group =
  params :: "pid list"
  lr :: 'a
  betas :: "'a list"
  eps :: 'a
  weight_decay :: 'a
  amsgrad :: bool

record 'a optimizer =
  opt_id :: int
  param_groups :: "'a group list"
  state :: "pid \<rightharpoonup> 'a param_state"

text \<open>
  The native module is outside this file. A call takes the module's internal state and
  the tensors it is handed, and gives back the internal state and the new contents of
  the tensors it writes in place; \<open>k_raised\<close> is the exception, if any.
\<close>

record ('a, 'k) kres =
  k_state :: 'k
  k_param :: "'a tensor"
  k_exp_avg :: "'a tensor"
  k_exp_avg_sq :: "'a tensor"
  k_raised :: "error option"

record ('a, 'k) kres_copy = "('a, 'k) kres" +
  k_shadow :: "'a tensor"

record ('a, 'k) kernel =
  create_adam :: "'k \<Rightarrow> int \<Rightarrow> 'a \<Rightarrow> 'a \<Rightarrow> 'a \<Rightarrow> 'a \<Rightarrow> 'a \<Rightarrow> 'k \<times> error option"
  adam_update ::
    "'k \<Rightarrow> int \<Rightarrow> 'a tensor \<Rightarrow> 'a tensor \<Rightarrow> 'a tensor \<Rightarrow> 'a tensor \<Rightarrow> ('a, 'k) kres"
  adam_update_copy ::
    "'k \<Rightarrow> int \<Rightarrow> 'a tensor \<Rightarrow> 'a tensor \<Rightarrow> 'a tensor \<Rightarrow> 'a tensor \<Rightarrow> 'a tensor \<Rightarrow>
     ('a, 'k) kres_copy"

text \<open>Everything a call of \<^verbatim>\<open>step\<close> can read or write.\<close>

record ('a, 'k) mem =
  sys_of :: "('a, 'k) sys"
  heap :: "'a heap"
  opt :: "'a optimizer"
  fp16_param_groups :: "'a tensor list list option"

subsection \<open>\<^verbatim>\<open>__init__\<close>\<close>

text \<open>
  Line 26, \<^verbatim>\<open>super().__init__(model_params, default_args)\<close>, is
  \<^verbatim>\<open>torch.optim.Optimizer.__init__\<close>. \<open>model_params\<close> is given as the parameter
  lists of the groups. The base class raises \<^verbatim>\<open>ValueError\<close> for an empty list and
  for a parameter that appears in more than one group; a parameter listed twice in one
  group is accepted (with a warning). Otherwise every group is stored with the defaults.
  This happens before lines 28 and 29 take the id.
\<close>

definition default_group ::
  "'a \<Rightarrow> 'a list \<Rightarrow> 'a \<Rightarrow> 'a \<Rightarrow> bool \<Rightarrow> pid list \<Rightarrow> 'a group" where
  "default_group l bs e wd ams ps =
     \<lparr>params = ps, lr = l, betas = bs, eps = e, weight_decay = wd, amsgrad = ams\<rparr>"

fun groups_disjoint :: "pid list list \<Rightarrow> bool" where
  "groups_disjoint [] = True"
| "groups_disjoint (g # gs) = (list_all (\<lambda>h. set g \<inter> set h = {}) gs \<and> groups_disjoint gs)"

definition base_accepts :: "pid list list \<Rightarrow> bool" where
  "base_accepts model_params \<longleftrightarrow> model_params \<noteq> [] \<and> groups_disjoint model_params"

definition optimizer_init ::
  "pid list list \<Rightarrow> 'a \<Rightarrow> 'a list \<Rightarrow> 'a \<Rightarrow> 'a \<Rightarrow> bool \<Rightarrow> error + 'a group list" where
  "optimizer_init model_params l bs e wd ams =
     (if base_accepts model_params
      then Inr (map (default_group l bs e wd ams) model_params)
      else Inl ValueError)"

text \<open>
  \<^verbatim>\<open>__init__\<close>. The arguments of \<^verbatim>\<open>create_adam\<close> are evaluated from left to
  right, so a short \<open>betas\<close> raises \<^verbatim>\<open>IndexError\<close> before the call, after the
  id has been taken and the module loaded.
\<close>

definition init ::
  "world \<Rightarrow> ('a, 'k) jit \<Rightarrow> (handle \<Rightarrow> ('a, 'k) kernel) \<Rightarrow>
   pid list list \<Rightarrow> 'a \<Rightarrow> 'a list \<Rightarrow> 'a \<Rightarrow> 'a \<Rightarrow> bool \<Rightarrow> ('a, 'k) sys \<Rightarrow>
   ((error + 'a optimizer) \<times> ('a, 'k) sys) option" where
  "init W jit kern model_params l bs e wd ams s =
     (case optimizer_init model_params l bs e wd ams of
        Inl err \<Rightarrow> Some (Inl err, s)
      | Inr groups \<Rightarrow>
          (let self = \<lparr>opt_id = optimizer_id s, param_groups = groups, state = Map.empty\<rparr>;
               s1 = s\<lparr>optimizer_id := optimizer_id s + 1\<rparr>
           in case load_op W jit s1 of
                None \<Rightarrow> None
              | Some (Inl err, s2) \<Rightarrow> Some (Inl err, s2)
              | Some (Inr h, s2) \<Rightarrow>
                  (case bs of
                     [] \<Rightarrow> Some (Inl IndexError, s2)
                   | [b1] \<Rightarrow> Some (Inl IndexError, s2)
                   | b1 # b2 # _ \<Rightarrow>
                       (let s3 = emit (CreateAdam h (opt_id self) l b1 b2 e wd) s2;
                            (k, r) = create_adam (kern h) (kstate s3) (opt_id self) l b1 b2 e wd;
                            s4 = s3\<lparr>kstate := k\<rparr>
                        in case r of
                             Some err \<Rightarrow> Some (Inl err, s4)
                           | None \<Rightarrow> Some (Inr self, s4)))))"

text \<open>The arguments of one construction; the constructions that get past line 26 and
  take an id.\<close>

type_synonym 'a ctor_args = "pid list list \<times> 'a \<times> 'a list \<times> 'a \<times> 'a \<times> bool"

definition takes_id :: "'a ctor_args \<Rightarrow> bool" where
  "takes_id c = base_accepts (fst c)"

text \<open>A process that constructs one optimizer after another, going on after a
  construction that raised. It stops where a construction never returns.\<close>

fun constructs ::
  "world \<Rightarrow> ('a, 'k) jit \<Rightarrow> (handle \<Rightarrow> ('a, 'k) kernel) \<Rightarrow> 'a ctor_args list \<Rightarrow>
   ('a, 'k) sys \<Rightarrow> ((error + 'a optimizer) list \<times> ('a, 'k) sys) option" where
  "constructs W jit kern [] s = Some ([], s)"
| "constructs W jit kern ((mp, l, bs, e, wd, ams) # cs) s =
     (case init W jit kern mp l bs e wd ams s of
        None \<Rightarrow> None
      | Some (r, s1) \<Rightarrow>
          (case constructs W jit kern cs s1 of
             None \<Rightarrow> None
           | Some (rs, s2) \<Rightarrow> Some (r # rs, s2)))"

subsection \<open>\<^verbatim>\<open>step\<close>\<close>

definition log :: "'a event \<Rightarrow> ('a, 'k) mem \<Rightarrow> ('a, 'k) mem" where
  "log e M = M\<lparr>sys_of := emit e (sys_of M)\<rparr>"

definition set_state :: "pid \<Rightarrow> 'a param_state \<Rightarrow> ('a, 'k) mem \<Rightarrow> ('a, 'k) mem" where
  "set_state p ps M = M\<lparr>opt := (opt M)\<lparr>state := (state (opt M))(p \<mapsto> ps)\<rparr>\<rparr>"

definition set_data :: "pid \<Rightarrow> 'a tensor \<Rightarrow> ('a, 'k) mem \<Rightarrow> ('a, 'k) mem" where
  "set_data p t M = M\<lparr>heap := (heap M)(p := (heap M p)\<lparr>data := t\<rparr>)\<rparr>"

definition set_kstate :: "'k \<Rightarrow> ('a, 'k) mem \<Rightarrow> ('a, 'k) mem" where
  "set_kstate k M = M\<lparr>sys_of := (sys_of M)\<lparr>kstate := k\<rparr>\<rparr>"

text \<open>The state initialisation under \<^verbatim>\<open>if len(state) == 0\<close>.\<close>

definition fresh_state :: "'a::zero tensor \<Rightarrow> 'a param_state" where
  "fresh_state d =
     \<lparr>step_count = 0, exp_avg = zeros_like_cpu d, exp_avg_sq = zeros_like_cpu d\<rparr>"

text \<open>
  The two kernel calls. The module writes \<^verbatim>\<open>p.data\<close>, the two moment buffers and
  the shadow tensor in place: the model stores what the call gives back into the slots
  the tensors came from, also when the call raises.
\<close>

definition call_adam_update ::
  "(handle \<Rightarrow> ('a, 'k) kernel) \<Rightarrow> handle \<Rightarrow> pid \<Rightarrow> 'a tensor \<Rightarrow> 'a param_state \<Rightarrow>
   ('a, 'k) mem \<Rightarrow> error option \<times> ('a, 'k) mem" where
  "call_adam_update kern h p g ps M =
     (let d = data (heap M p);
          M1 = log (AdamUpdate h (opt_id (opt M)) p d g (exp_avg ps) (exp_avg_sq ps)) M;
          r = adam_update (kern h) (kstate (sys_of M1)) (opt_id (opt M)) d g
                (exp_avg ps) (exp_avg_sq ps)
      in (k_raised r,
          set_state p (ps\<lparr>exp_avg := k_exp_avg r, exp_avg_sq := k_exp_avg_sq r\<rparr>)
            (set_data p (k_param r) (set_kstate (k_state r) M1))))"

definition call_adam_update_copy ::
  "(handle \<Rightarrow> ('a, 'k) kernel) \<Rightarrow> handle \<Rightarrow> pid \<Rightarrow> 'a tensor \<Rightarrow> 'a param_state \<Rightarrow>
   'a tensor list list \<Rightarrow> nat \<Rightarrow> nat \<Rightarrow> ('a, 'k) mem \<Rightarrow> error option \<times> ('a, 'k) mem" where
  "call_adam_update_copy kern h p g ps F group_id param_id M =
     (let d = data (heap M p);
          p_fp16 = F ! group_id ! param_id;
          M1 = log (AdamUpdateCopy h (opt_id (opt M)) p d g (exp_avg ps) (exp_avg_sq ps)
                      (group_id, param_id) p_fp16) M;
          r = adam_update_copy (kern h) (kstate (sys_of M1)) (opt_id (opt M)) d g
                (exp_avg ps) (exp_avg_sq ps) p_fp16;
          M2 = set_state p (ps\<lparr>exp_avg := k_exp_avg r, exp_avg_sq := k_exp_avg_sq r\<rparr>)
                 (set_data p (k_param r) (set_kstate (k_state r) M1))
      in (k_raised r,
          M2\<lparr>fp16_param_groups :=
               Some (F[group_id := (F ! group_id)[param_id := k_shadow r]])\<rparr>))"

text \<open>
  Lines 112 to 123: the state of \<open>p\<close> is initialised if it is empty, the two
  buffers are read, and the step counter is raised. The result is the state entry as
  the kernel call will see it, and the memory.
\<close>

definition track ::
  "nat \<Rightarrow> nat \<Rightarrow> pid \<Rightarrow> ('a::zero, 'k) mem \<Rightarrow> 'a param_state \<times> ('a, 'k) mem" where
  "track group_id param_id p M =
     (let (ps0, M1) =
            (case state (opt M) p of
               None \<Rightarrow> (fresh_state (data (heap M p)),
                        log (PrintState group_id param_id (numel (data (heap M p)))) M)
             | Some ps \<Rightarrow> (ps, M));
          ps1 = ps0\<lparr>step_count := step_count ps0 + 1\<rparr>
      in (ps1, set_state p ps1 M1))"

text \<open>Lines 126 to 139: the choice between the two kernel calls.\<close>

definition dispatch ::
  "(handle \<Rightarrow> ('a, 'k) kernel) \<Rightarrow> handle \<Rightarrow> nat \<Rightarrow> nat \<Rightarrow> pid \<Rightarrow> 'a tensor \<Rightarrow>
   'a param_state \<Rightarrow> ('a, 'k) mem \<Rightarrow> error option \<times> ('a, 'k) mem" where
  "dispatch kern h group_id param_id p g ps M =
     (case fp16_param_groups M of
        Some F \<Rightarrow>
          (if group_id < length F \<and> param_id < length (F ! group_id)
           then call_adam_update_copy kern h p g ps F group_id param_id M
           else (Some IndexError, M))
      | None \<Rightarrow> call_adam_update kern h p g ps M)"

text \<open>
  The body of the inner loop for one parameter. The result \<open>None\<close> is a call that
  never returns (\<^verbatim>\<open>load_op\<close> may wait); \<open>Some (Some e, M)\<close> is the exception
  \<open>e\<close> raised in memory \<open>M\<close>; \<open>Some (None, M)\<close> goes on with the next
  parameter.
\<close>

definition step_param ::
  "world \<Rightarrow> ('a::zero, 'k) jit \<Rightarrow> (handle \<Rightarrow> ('a, 'k) kernel) \<Rightarrow> nat \<Rightarrow> nat \<Rightarrow> pid \<Rightarrow>
   ('a, 'k) mem \<Rightarrow> (error option \<times> ('a, 'k) mem) option" where
  "step_param W jit kern group_id param_id p M =
     (case grad (heap M p) of
        None \<Rightarrow> Some (None, M)
      | Some g \<Rightarrow>
          (let (ps1, M2) = track group_id param_id p M in
           case load_op W jit (sys_of M2) of
             None \<Rightarrow> None
           | Some (Inl err, s) \<Rightarrow> Some (Some err, M2\<lparr>sys_of := s\<rparr>)
           | Some (Inr h, s) \<Rightarrow>
               Some (dispatch kern h group_id param_id p g ps1 (M2\<lparr>sys_of := s\<rparr>))))"

fun step_params ::
  "world \<Rightarrow> ('a::zero, 'k) jit \<Rightarrow> (handle \<Rightarrow> ('a, 'k) kernel) \<Rightarrow> nat \<Rightarrow> (nat \<times> pid) list \<Rightarrow>
   ('a, 'k) mem \<Rightarrow> (error option \<times> ('a, 'k) mem) option" where
  "step_params W jit kern group_id [] M = Some (None, M)"
| "step_params W jit kern group_id ((param_id, p) # ps) M =
     (case step_param W jit kern group_id param_id p M of
        None \<Rightarrow> None
      | Some (Some err, M1) \<Rightarrow> Some (Some err, M1)
      | Some (None, M1) \<Rightarrow> step_params W jit kern group_id ps M1)"

fun step_groups ::
  "world \<Rightarrow> ('a::zero, 'k) jit \<Rightarrow> (handle \<Rightarrow> ('a, 'k) kernel) \<Rightarrow> (nat \<times> 'a group) list \<Rightarrow>
   ('a, 'k) mem \<Rightarrow> (error option \<times> ('a, 'k) mem) option" where
  "step_groups W jit kern [] M = Some (None, M)"
| "step_groups W jit kern ((group_id, G) # gs) M =
     (case step_params W jit kern group_id (enumerate 0 (params G)) M of
        None \<Rightarrow> None
      | Some (Some err, M1) \<Rightarrow> Some (Some err, M1)
      | Some (None, M1) \<Rightarrow> step_groups W jit kern gs M1)"

text \<open>
  The closure is the caller's: it may change the tensors (it usually fills the
  gradients) and returns the loss or raises. \<open>enter\<close> is the memory in which the
  loop starts.
\<close>

type_synonym 'a closure = "'a heap \<Rightarrow> (error + 'a tensor) \<times> 'a heap"

definition enter ::
  "'a closure option \<Rightarrow> 'a tensor list list option \<Rightarrow> ('a, 'k) mem \<Rightarrow>
   (error + 'a tensor option) \<times> ('a, 'k) mem" where
  "enter closure fp16 M =
     (let M0 = M\<lparr>fp16_param_groups := fp16\<rparr> in
      case closure of
        None \<Rightarrow> (Inr None, M0)
      | Some c \<Rightarrow>
          (case c (heap M0) of
             (Inl err, hp) \<Rightarrow> (Inl err, M0\<lparr>heap := hp\<rparr>)
           | (Inr loss, hp) \<Rightarrow> (Inr (Some loss), M0\<lparr>heap := hp\<rparr>)))"

definition step ::
  "world \<Rightarrow> ('a::zero, 'k) jit \<Rightarrow> (handle \<Rightarrow> ('a, 'k) kernel) \<Rightarrow> 'a closure option \<Rightarrow>
   'a tensor list list option \<Rightarrow> ('a, 'k) mem \<Rightarrow>
   ((error + 'a tensor option) \<times> ('a, 'k) mem) option" where
  "step W jit kern closure fp16 M =
     (case enter closure fp16 M of
        (Inl err, M0) \<Rightarrow> Some (Inl err, M0)
      | (Inr loss, M0) \<Rightarrow>
          (case step_groups W jit kern (enumerate 0 (param_groups (opt M0))) M0 of
             None \<Rightarrow> None
           | Some (Some err, M1) \<Rightarrow> Some (Inl err, M1)
           | Some (None, M1) \<Rightarrow> Some (Inr loss, M1)))"

text \<open>
  The positions of the groups in the order in which the nested iteration of
  \<^verbatim>\<open>step\<close> visits them, and that iteration over a flat list of positions.
\<close>

definition group_entries :: "nat \<Rightarrow> pid list \<Rightarrow> (nat \<times> nat \<times> pid) list" where
  "group_entries group_id ps = map (\<lambda>(param_id, p). (group_id, param_id, p)) (enumerate 0 ps)"

definition entries :: "'a group list \<Rightarrow> (nat \<times> nat \<times> pid) list" where
  "entries gs = concat (map (\<lambda>(group_id, G). group_entries group_id (params G)) (enumerate 0 gs))"

fun step_entries ::
  "world \<Rightarrow> ('a::zero, 'k) jit \<Rightarrow> (handle \<Rightarrow> ('a, 'k) kernel) \<Rightarrow> (nat \<times> nat \<times> pid) list \<Rightarrow>
   ('a, 'k) mem \<Rightarrow> (error option \<times> ('a, 'k) mem) option" where
  "step_entries W jit kern [] M = Some (None, M)"
| "step_entries W jit kern ((group_id, param_id, p) # es) M =
     (case step_param W jit kern group_id param_id p M of
        None \<Rightarrow> None
      | Some (Some err, M1) \<Rightarrow> Some (Some err, M1)
      | Some (None, M1) \<Rightarrow> step_entries W jit kern es M1)"

text \<open>The step counter of a state entry; an empty entry has none, read as 0.\<close>

definition step_of :: "'a param_state option \<Rightarrow> int" where
  "step_of x = (case x of None \<Rightarrow> 0 | Some ps \<Rightarrow> step_count ps)"

text \<open>The parameter a kernel call of the log was made for.\<close>

fun pid_of :: "'a event \<Rightarrow> pid option" where
  "pid_of (AdamUpdate h i p d g m v) = Some p"
| "pid_of (AdamUpdateCopy h i p d g m v gi sh) = Some p"
| "pid_of ev = None"

definition step_at :: "pid \<Rightarrow> ('a, 'k) mem \<Rightarrow> int" where
  "step_at p M = step_of (state (opt M) p)"

text \<open>
  A training run: before each call of \<^verbatim>\<open>step\<close> the caller does something to
  its tensors (a backward pass, \<^verbatim>\<open>zero_grad\<close>), then calls \<^verbatim>\<open>step\<close> with a
  closure or none and with shadow groups or none. The run ends at the first call that
  raises. \<open>grad_calls\<close> counts the calls of the run in which \<open>p\<close> carried a
  gradient when the loop over the groups began.
\<close>

type_synonym 'a call = "('a heap \<Rightarrow> 'a heap) \<times> 'a closure option \<times> 'a tensor list list option"

fun steps ::
  "world \<Rightarrow> ('a::zero, 'k) jit \<Rightarrow> (handle \<Rightarrow> ('a, 'k) kernel) \<Rightarrow> 'a call list \<Rightarrow>
   ('a, 'k) mem \<Rightarrow> ((error + 'a tensor option list) \<times> ('a, 'k) mem) option" where
  "steps W jit kern [] M = Some (Inr [], M)"
| "steps W jit kern ((pre, closure, fp16) # cs) M =
     (case step W jit kern closure fp16 (M\<lparr>heap := pre (heap M)\<rparr>) of
        None \<Rightarrow> None
      | Some (Inl err, M1) \<Rightarrow> Some (Inl err, M1)
      | Some (Inr loss, M1) \<Rightarrow>
          (case steps W jit kern cs M1 of
             None \<Rightarrow> None
           | Some (Inl err, M2) \<Rightarrow> Some (Inl err, M2)
           | Some (Inr ls, M2) \<Rightarrow> Some (Inr (loss # ls), M2)))"

fun grad_calls ::
  "world \<Rightarrow> ('a::zero, 'k) jit \<Rightarrow> (handle \<Rightarrow> ('a, 'k) kernel) \<Rightarrow> pid \<Rightarrow> 'a call list \<Rightarrow>
   ('a, 'k) mem \<Rightarrow> nat" where
  "grad_calls W jit kern p [] M = 0"
| "grad_calls W jit kern p ((pre, closure, fp16) # cs) M =
     (if grad (heap (snd (enter closure fp16 (M\<lparr>heap := pre (heap M)\<rparr>))) p) = None then 0 else 1)
     + (case step W jit kern closure fp16 (M\<lparr>heap := pre (heap M)\<rparr>) of
          Some (Inr loss, M1) \<Rightarrow> grad_calls W jit kern p cs M1
        | _ \<Rightarrow> 0)"


fun is_update :: "'a event \<Rightarrow> bool" where
  "is_update (AdamUpdate h i p d g m v) = True"
| "is_update (AdamUpdateCopy h i p d g m v gi sh) = True"
| "is_update ev = False"

definition update_calls :: "'a event list \<Rightarrow> 'a event list" where
  "update_calls es = filter is_update es"

text \<open>What a kernel update call of the log was: plain or with a copy, for which
  parameter, and for the copy the position of the shadow tensor.\<close>

datatype call_sig = Plain pid | Copy pid nat nat

fun sig_of :: "'a event \<Rightarrow> call_sig option" where
  "sig_of (AdamUpdate h i p d g m v) = Some (Plain p)"
| "sig_of (AdamUpdateCopy h i p d g m v gi sh) = Some (Copy p (fst gi) (snd gi))"
| "sig_of ev = None"

definition expected_sig :: "'b option \<Rightarrow> nat \<times> nat \<times> pid \<Rightarrow> call_sig" where
  "expected_sig fp16 e =
     (case fp16 of
        None \<Rightarrow> Plain (snd (snd e))
      | Some F \<Rightarrow> Copy (snd (snd e)) (fst e) (fst (snd e)))"

definition state_at :: "pid \<Rightarrow> ('a, 'k) mem \<Rightarrow> 'a param_state option" where
  "state_at p M = state (opt M) p"

text \<open>Shape and dtype of two tensors agree; the state entry of \<open>p\<close>, if there
  is one, agrees in this with the parameter.\<close>

definition same_meta :: "'a tensor \<Rightarrow> 'a tensor \<Rightarrow> bool" where
  "same_meta a b \<longleftrightarrow> shape a = shape b \<and> dtype a = dtype b"




text \<open>The optimizer with the \<^verbatim>\<open>amsgrad\<close> entry of every group set to \<open>b\<close>.\<close>

definition set_amsgrad :: "bool \<Rightarrow> 'a optimizer \<Rightarrow> 'a optimizer" where
  "set_amsgrad b ob = ob\<lparr>param_groups := map (\<lambda>G. G\<lparr>amsgrad := b\<rparr>) (param_groups ob)\<rparr>"

definition with_amsgrad :: "bool \<Rightarrow> ('a, 'k) mem \<Rightarrow> ('a, 'k) mem" where
  "with_amsgrad b M = M\<lparr>opt := set_amsgrad b (opt M)\<rparr>"

subsection \<open>A process at its start, and the inputs used in the examples\<close>

text \<open>The class attributes as the class statement leaves them (\<^verbatim>\<open>optimizer_id = 0\<close>,
  \<^verbatim>\<open>ds_opt_adam = None\<close>), in front of an empty build-cache directory.\<close>

definition fresh_sys :: "'k \<Rightarrow> ('a, 'k) sys" where
  "fresh_sys k =
     \<lparr>fs = \<lparr>started_file = False, done_file = False\<rparr>, clock = 0, optimizer_id = 0,
      ds_opt_adam = None, kstate = k, events = []\<rparr>"

text \<open>The same process in front of a directory where a builder left \<^verbatim>\<open>started\<close>.\<close>

definition started_sys :: "'k \<Rightarrow> ('a, 'k) sys" where
  "started_sys k = (fresh_sys k)\<lparr>fs := \<lparr>started_file = True, done_file = False\<rparr>\<rparr>"

text \<open>No other process touches the directory; another process writes \<^verbatim>\<open>done\<close>
  just before look \<open>t\<close>.\<close>

definition quiet :: world where
  "quiet n m = m"

definition done_at :: "nat \<Rightarrow> world" where
  "done_at t n m = (if n = t then m\<lparr>done_file := True\<rparr> else m)"

definition jit_ok :: "handle \<Rightarrow> ('a, 'k) jit" where
  "jit_ok h s = Inr h"

text \<open>The module a kernel call of the log went to.\<close>

fun handle_of :: "'a event \<Rightarrow> handle option" where
  "handle_of (CreateAdam h i l b1 b2 e wd) = Some h"
| "handle_of (AdamUpdate h i p d g m v) = Some h"
| "handle_of (AdamUpdateCopy h i p d g m v gi sh) = Some h"
| "handle_of ev = None"

subsection \<open>The native kernel, from the specification\<close>

text \<open>
  Modelled from the spec: the native kernel (\<^verbatim>\<open>csrc/adam/cpu_adam.cpp\<close>), which is
  not among the sources. The specification gives its contract: \<^verbatim>\<open>create\<close> registers
  internal state for an id; \<^verbatim>\<open>update\<close> performs one bias-corrected Adam step in
  place on the parameter and the two exponentially weighted running averages, of the
  gradient and of the squared gradient, with decoupled weight decay;
  \<^verbatim>\<open>update_with_copy\<close> does the same and writes a copy of the updated parameter
  into the shadow tensor. A call for an id that was never created, or on tensors of
  different sizes, raises. Numbers are reals here, not floats.
\<close>

record adam_slot =
  a_lr :: real
  a_beta1 :: real
  a_beta2 :: real
  a_eps :: real
  a_wd :: real
  a_t :: nat

type_synonym adam_state = "int \<rightharpoonup> adam_slot"

definition spec_create ::
  "adam_state \<Rightarrow> int \<Rightarrow> real \<Rightarrow> real \<Rightarrow> real \<Rightarrow> real \<Rightarrow> real \<Rightarrow> adam_state \<times> error option" where
  "spec_create K i l b1 b2 e wd =
     (K(i \<mapsto> \<lparr>a_lr = l, a_beta1 = b1, a_beta2 = b2, a_eps = e, a_wd = wd, a_t = 0\<rparr>), None)"

definition adam_m :: "adam_slot \<Rightarrow> real \<Rightarrow> real \<Rightarrow> real" where
  "adam_m c g m = a_beta1 c * m + (1 - a_beta1 c) * g"

definition adam_v :: "adam_slot \<Rightarrow> real \<Rightarrow> real \<Rightarrow> real" where
  "adam_v c g v = a_beta2 c * v + (1 - a_beta2 c) * g * g"

definition adam_p :: "adam_slot \<Rightarrow> real \<Rightarrow> real \<Rightarrow> real \<Rightarrow> real" where
  "adam_p c p m v =
     p - a_lr c * a_wd c * p
       - a_lr c * ((m / (1 - a_beta1 c ^ a_t c)) / (sqrt (v / (1 - a_beta2 c ^ a_t c)) + a_eps c))"

definition spec_update ::
  "adam_state \<Rightarrow> int \<Rightarrow> real tensor \<Rightarrow> real tensor \<Rightarrow> real tensor \<Rightarrow> real tensor \<Rightarrow>
   (real, adam_state) kres" where
  "spec_update K i p g m v =
     (case K i of
        None \<Rightarrow>
          \<lparr>k_state = K, k_param = p, k_exp_avg = m, k_exp_avg_sq = v,
           k_raised = Some KernelError\<rparr>
      | Some c0 \<Rightarrow>
          if length (elems g) \<noteq> length (elems p) \<or> length (elems m) \<noteq> length (elems p)
             \<or> length (elems v) \<noteq> length (elems p)
          then \<lparr>k_state = K, k_param = p, k_exp_avg = m, k_exp_avg_sq = v,
                k_raised = Some ShapeError\<rparr>
          else
            (let c = c0\<lparr>a_t := a_t c0 + 1\<rparr>;
                 ms = map2 (adam_m c) (elems g) (elems m);
                 vs = map2 (adam_v c) (elems g) (elems v);
                 ps = map2 (\<lambda>x (y, z). adam_p c x y z) (elems p) (zip ms vs)
             in \<lparr>k_state = K(i \<mapsto> c), k_param = p\<lparr>elems := ps\<rparr>,
                 k_exp_avg = m\<lparr>elems := ms\<rparr>, k_exp_avg_sq = v\<lparr>elems := vs\<rparr>,
                 k_raised = None\<rparr>))"

definition spec_update_copy ::
  "adam_state \<Rightarrow> int \<Rightarrow> real tensor \<Rightarrow> real tensor \<Rightarrow> real tensor \<Rightarrow> real tensor \<Rightarrow>
   real tensor \<Rightarrow> (real, adam_state) kres_copy" where
  "spec_update_copy K i p g m v sh =
     (let r = spec_update K i p g m v in
      \<lparr>k_state = k_state r, k_param = k_param r, k_exp_avg = k_exp_avg r,
       k_exp_avg_sq = k_exp_avg_sq r, k_raised = k_raised r,
       k_shadow = (case k_raised r of
                     None \<Rightarrow> sh\<lparr>elems := elems (k_param r)\<rparr>
                   | Some err \<Rightarrow> sh)\<rparr>)"

definition spec_kernel :: "handle \<Rightarrow> (real, adam_state) kernel" where
  "spec_kernel h =
     \<lparr>create_adam = spec_create, adam_update = spec_update,
      adam_update_copy = spec_update_copy\<rparr>"

subsection \<open>More inputs for the examples\<close>

text \<open>A fresh process in front of the specification's kernel, and the state in which
  its first \<^verbatim>\<open>load_op\<close> leaves it when nobody else is building and the loader
  returns module 7.\<close>

definition fresh_adam_sys :: "(real, adam_state) sys" where
  "fresh_adam_sys = fresh_sys Map.empty"

definition cached_sys :: "(real, adam_state) sys" where
  "cached_sys =
     touch_done ((emit JitLoad (touch_started (observe quiet (makedirs fresh_adam_sys))))
                   \<lparr>ds_opt_adam := Some 7\<rparr>)"

text \<open>Constructor arguments: the defaults of \<^verbatim>\<open>__init__\<close> for one group of two
  parameters, and a call whose \<^verbatim>\<open>betas\<close> has one component only.\<close>

definition ctor_default :: "real ctor_args" where
  "ctor_default = ([[0, 1]], 1 / 1000, [9 / 10, 999 / 1000], 1 / 100000000, 0, False)"

definition ctor_short_betas :: "real ctor_args" where
  "ctor_short_betas = ([[2]], 1 / 1000, [9 / 10], 1 / 100000000, 0, False)"

text \<open>A call with an empty parameter list, which the base class refuses.\<close>

definition ctor_empty :: "real ctor_args" where
  "ctor_empty = ([], 1 / 1000, [9 / 10, 999 / 1000], 1 / 100000000, 0, False)"

text \<open>
  The state after the first optimizer of the process has been constructed with the
  default arguments, and a memory for it: every parameter is a vector of two numbers
  with a gradient, and no state has been created yet.
\<close>

definition adam_defaults :: adam_slot where
  "adam_defaults =
     \<lparr>a_lr = 1 / 1000, a_beta1 = 9 / 10, a_beta2 = 999 / 1000, a_eps = 1 / 100000000,
      a_wd = 0, a_t = 0\<rparr>"

definition ready_sys :: "(real, adam_state) sys" where
  "ready_sys =
     (emit (CreateAdam 7 0 (1 / 1000) (9 / 10) (999 / 1000) (1 / 100000000) 0)
        (cached_sys\<lparr>optimizer_id := 1\<rparr>))\<lparr>kstate := [0 \<mapsto> adam_defaults]\<rparr>"

definition vec :: "real list \<Rightarrow> real tensor" where
  "vec xs = \<lparr>shape = [length xs], dtype = Float32, device = CPU, elems = xs\<rparr>"

definition heap0 :: "real heap" where
  "heap0 p = \<lparr>data = vec [1, 2], grad = Some (vec [1 / 10, 1 / 10])\<rparr>"

definition opt0 :: "pid list list \<Rightarrow> real optimizer" where
  "opt0 gs =
     \<lparr>opt_id = 0,
      param_groups = map (default_group (1 / 1000) [9 / 10, 999 / 1000] (1 / 100000000) 0 False) gs,
      state = Map.empty\<rparr>"

definition mem0 :: "pid list list \<Rightarrow> (real, adam_state) mem" where
  "mem0 gs = \<lparr>sys_of = ready_sys, heap = heap0, opt = opt0 gs, fp16_param_groups = None\<rparr>"

text \<open>What a caller does between two calls: nothing, or dropping the gradient of one
  parameter.\<close>

definition drop_grad :: "pid \<Rightarrow> 'a heap \<Rightarrow> 'a heap" where
  "drop_grad p hp = hp(p := (hp p)\<lparr>grad := None\<rparr>)"



definition shadow16 :: "real tensor" where
  "shadow16 = \<lparr>shape = [2], dtype = Float16, device = CUDA 0, elems = [0, 0]\<rparr>"

definition zeros2 :: "real tensor" where
  "zeros2 = \<lparr>shape = [2], dtype = Float32, device = CPU, elems = [0, 0]\<rparr>"

definition mem0_fp16 :: "(real, adam_state) mem" where
  "mem0_fp16 = (mem0 [[0, 1]])\<lparr>fp16_param_groups := Some [[shadow16, shadow16]]\<rparr>"

text \<open>Shadow groups whose only group is empty, for an optimizer with two parameters.\<close>

definition mem0_short :: "(real, adam_state) mem" where
  "mem0_short = (mem0 [[0, 2]])\<lparr>fp16_param_groups := Some [[]]\<rparr>"

text \<open>Three parameters in one group; the gradient of parameter 2 has one element where
  the parameter has two, which the kernel of the specification refuses.\<close>

definition bad_mem :: "(real, adam_state) mem" where
  "bad_mem =
     (mem0 [[0, 2, 3]])\<lparr>heap := heap0(2 := \<lparr>data = vec [1, 2], grad = Some (vec [1 / 10])\<rparr>)\<rparr>"

section \<open>Properties\<close>

subsection \<open>The wait loop\<close>


lemma observe_simps:
  "fs (observe W s) = W (clock s) (fs s)"
  "clock (observe W s) = Suc (clock s)"
  "events (observe W s) = events s"
  "optimizer_id (observe W s) = optimizer_id s"
  "ds_opt_adam (observe W s) = ds_opt_adam s"
  "kstate (observe W s) = kstate s"
  by (simp_all add: observe_def)

lemma emit_simps:
  "fs (emit e s) = fs s"
  "clock (emit e s) = clock s"
  "events (emit e s) = events s @ [e]"
  "optimizer_id (emit e s) = optimizer_id s"
  "ds_opt_adam (emit e s) = ds_opt_adam s"
  "kstate (emit e s) = kstate s"
  by (simp_all add: emit_def)

lemma fs_after_shift: "fs_after W (Suc c) (W c m) n = fs_after W c m (Suc n)"
  by (induction n) simp_all

lemma poll_fs: "fs (poll W s k) = fs_after W (clock s) (fs s) (Suc k)"
proof (induction k arbitrary: s)
  case 0
  show ?case by (simp add: observe_simps)
next
  case (Suc k)
  have "fs (poll W (sleep 1000 (observe W s)) k) =
        fs_after W (Suc (clock s)) (W (clock s) (fs s)) (Suc k)"
    by (simp only: Suc.IH) (simp add: observe_simps emit_simps sleep_def)
  then show ?case by (simp only: poll.simps fs_after_shift)
qed

lemma poll_events: "events (poll W s k) = events s @ replicate k (Sleep 1000)"
  by (induction k arbitrary: s)
     (simp_all add: observe_simps emit_simps sleep_def replicate_append_same)

lemma poll_clock: "clock (poll W s k) = clock s + Suc k"
  by (induction k arbitrary: s) (simp_all add: observe_simps emit_simps sleep_def)

lemma poll_rest:
  "optimizer_id (poll W s k) = optimizer_id s"
  "ds_opt_adam (poll W s k) = ds_opt_adam s"
  "kstate (poll W s k) = kstate s"
  by (induction k arbitrary: s) (simp_all add: observe_simps emit_simps sleep_def)

lemma wait_loop_first:
  "\<forall>j<k. \<not> done_file (fs (poll W s j)) \<Longrightarrow> done_file (fs (poll W s k)) \<Longrightarrow>
   wait_loop W s = Some (poll W s k)"
proof (induction k arbitrary: s)
  case 0
  then show ?case by (simp add: wait_loop.simps)
next
  case (Suc k)
  from Suc.prems(1) have n0: "\<not> done_file (fs (observe W s))"
    by (metis poll.simps(1) zero_less_Suc)
  have "\<forall>j<k. \<not> done_file (fs (poll W (sleep 1000 (observe W s)) j))"
    using Suc.prems(1) by (metis Suc_mono poll.simps(2))
  moreover have "done_file (fs (poll W (sleep 1000 (observe W s)) k))"
    using Suc.prems(2) by simp
  ultimately have "wait_loop W (sleep 1000 (observe W s)) = Some (poll W (sleep 1000 (observe W s)) k)"
    by (rule Suc.IH)
  with n0 show ?case by (subst wait_loop.simps) simp
qed

lemma wait_loop_Some:
  assumes "wait_loop W s = Some s'"
  shows "\<exists>k. s' = poll W s k \<and> done_file (fs (poll W s k)) \<and>
             (\<forall>j<k. \<not> done_file (fs (poll W s j)))"
proof (rule wait_loop.raw_induct[OF _ assms])
  fix wl :: "world \<Rightarrow> ('a, 'b) sys \<Rightarrow> ('a, 'b) sys option" and W s s'
  assume IH: "\<And>W s y. wl W s = Some y \<Longrightarrow>
      \<exists>k. y = poll W s k \<and> done_file (fs (poll W s k)) \<and>
          (\<forall>j<k. \<not> done_file (fs (poll W s j)))"
    and eq: "(if done_file (fs (observe W s)) then Some (observe W s)
              else wl W (sleep 1000 (observe W s))) = Some s'"
  show "\<exists>k. s' = poll W s k \<and> done_file (fs (poll W s k)) \<and>
            (\<forall>j<k. \<not> done_file (fs (poll W s j)))"
  proof (cases "done_file (fs (observe W s))")
    case True
    with eq have "s' = poll W s 0" by simp
    with True show ?thesis by (intro exI[of _ 0]) simp
  next
    case False
    with eq have "wl W (sleep 1000 (observe W s)) = Some s'" by simp
    from IH[OF this] obtain k where k: "s' = poll W (sleep 1000 (observe W s)) k"
      "done_file (fs (poll W (sleep 1000 (observe W s)) k))"
      "\<forall>j<k. \<not> done_file (fs (poll W (sleep 1000 (observe W s)) j))" by blast
    have "\<forall>j<Suc k. \<not> done_file (fs (poll W s j))"
    proof (intro allI impI)
      fix j assume "j < Suc k"
      then show "\<not> done_file (fs (poll W s j))"
        using False k(3) by (cases j) simp_all
    qed
    with k(1,2) show ?thesis by (intro exI[of _ "Suc k"]) simp
  qed
qed

lemma wait_loop_None:
  "wait_loop W s = None \<longleftrightarrow> (\<forall>k. \<not> done_file (fs (poll W s k)))"
proof
  assume n: "wait_loop W s = None"
  show "\<forall>k. \<not> done_file (fs (poll W s k))"
  proof (rule ccontr)
    assume "\<not> (\<forall>k. \<not> done_file (fs (poll W s k)))"
    then obtain k where "done_file (fs (poll W s k))" by blast
    then obtain k0 where "done_file (fs (poll W s k0))" "\<forall>j<k0. \<not> done_file (fs (poll W s j))"
      using exists_least_iff[of "\<lambda>k. done_file (fs (poll W s k))"] by blast
    then have "wait_loop W s = Some (poll W s k0)" using wait_loop_first by blast
    with n show False by simp
  qed
next
  assume a: "\<forall>k. \<not> done_file (fs (poll W s k))"
  show "wait_loop W s = None"
  proof (cases "wait_loop W s")
    case (Some s')
    from wait_loop_Some[OF this] a show ?thesis by blast
  qed simp
qed

lemma wait_if_None:
  "wait_if_build_started W s = None \<longleftrightarrow>
     started_file (fs_after W (clock s) (fs s) 1) \<and>
     (\<forall>n\<ge>2. \<not> done_file (fs_after W (clock s) (fs s) n))"
proof -
  have a: "(\<forall>k. \<not> done_file (fs_after W (clock s) (fs s) (Suc (Suc k)))) \<longleftrightarrow>
        (\<forall>n\<ge>2. \<not> done_file (fs_after W (clock s) (fs s) n))"
  proof
    assume h: "\<forall>k. \<not> done_file (fs_after W (clock s) (fs s) (Suc (Suc k)))"
    show "\<forall>n\<ge>2. \<not> done_file (fs_after W (clock s) (fs s) n)"
    proof (intro allI impI)
      fix n :: nat assume "2 \<le> n"
      then obtain k where "n = Suc (Suc k)" by (metis Suc_le_D numeral_2_eq_2 Suc_le_mono)
      with h show "\<not> done_file (fs_after W (clock s) (fs s) n)" by simp
    qed
  next
    assume h: "\<forall>n\<ge>2. \<not> done_file (fs_after W (clock s) (fs s) n)"
    show "\<forall>k. \<not> done_file (fs_after W (clock s) (fs s) (Suc (Suc k)))"
    proof
      fix k
      have "2 \<le> Suc (Suc k)" by simp
      with h show "\<not> done_file (fs_after W (clock s) (fs s) (Suc (Suc k)))" by blast
    qed
  qed
  have b: "fs (poll W (observe W s) k) = fs_after W (clock s) (fs s) (Suc (Suc k))" for k
    by (simp only: poll_fs observe_simps fs_after_shift)
  have c: "fs (observe W s) = fs_after W (clock s) (fs s) 1"
    by (simp add: observe_simps)
  show ?thesis
    unfolding wait_if_build_started_def
    by (simp only: wait_loop_None b c a split: if_split) simp
qed

lemma load_op_None:
  "ds_opt_adam s = None \<Longrightarrow>
   load_op W jit s = None \<longleftrightarrow> wait_if_build_started W (makedirs s) = None"
  by (simp add: load_op_def Let_def split: option.splits sum.splits)


subsection \<open>Blocking and building\<close>

lemma build_events:
  "events (snd (build jit s1)) =
     events s1 @ TouchStarted # JitLoad # (case jit (emit JitLoad (touch_started s1)) of
                                             Inl e \<Rightarrow> [] | Inr h \<Rightarrow> [TouchDone])"
  by (simp add: build_def Let_def emit_simps touch_started_def touch_done_def emit_def
           split: sum.splits)

lemma build_result:
  "fst (build jit s1) = jit (emit JitLoad (touch_started s1))"
  by (simp add: build_def Let_def split: sum.splits)

lemma build_slot:
  "ds_opt_adam (snd (build jit s1)) =
     (case jit (emit JitLoad (touch_started s1)) of Inl e \<Rightarrow> ds_opt_adam s1 | Inr h \<Rightarrow> Some h)"
  by (simp add: build_def Let_def emit_simps touch_started_def touch_done_def emit_def
           split: sum.splits)

text \<open>
  Claim C4. \<^verbatim>\<open>wait_if_build_started\<close> never returns exactly when its first look
  finds \<^verbatim>\<open>started\<close> and none of the later looks finds \<^verbatim>\<open>done\<close>: there is
  no timeout. In every other case (no \<^verbatim>\<open>started\<close> at the first look, or
  \<^verbatim>\<open>done\<close> at some later look) it returns. A call of \<^verbatim>\<open>load_op\<close> with an
  empty class slot never returns in exactly the same cases.
\<close>

theorem wait_if_build_started_blocks_iff:
  "(wait_if_build_started W s = None \<longleftrightarrow>
      started_file (fs_after W (clock s) (fs s) 1) \<and>
      (\<forall>n\<ge>2. \<not> done_file (fs_after W (clock s) (fs s) n))) \<and>
   (ds_opt_adam s = None \<longrightarrow>
      (load_op W jit s = None \<longleftrightarrow>
         started_file (fs_after W (clock s) (fs s) 1) \<and>
         (\<forall>n\<ge>2. \<not> done_file (fs_after W (clock s) (fs s) n))))"
proof -
  have "clock (makedirs s) = clock s" "fs (makedirs s) = fs s"
    by (simp_all add: makedirs_def emit_simps)
  then have "wait_if_build_started W (makedirs s) = None \<longleftrightarrow>
      started_file (fs_after W (clock s) (fs s) 1) \<and>
      (\<forall>n\<ge>2. \<not> done_file (fs_after W (clock s) (fs s) n))"
    using wait_if_None[of W "makedirs s"] by simp
  then have "ds_opt_adam s = None \<Longrightarrow> load_op W jit s = None \<longleftrightarrow>
      started_file (fs_after W (clock s) (fs s) 1) \<and>
      (\<forall>n\<ge>2. \<not> done_file (fs_after W (clock s) (fs s) n))"
    by (simp only: load_op_None)
  then show ?thesis
    by (intro conjI impI wait_if_None)
qed

lemma fs_after_quiet: "fs_after quiet c m n = m"
  by (induction n) (simp_all add: quiet_def)

theorem wait_if_build_started_blocks_iff_witness:
  "wait_if_build_started quiet (started_sys () :: (real, unit) sys) = None \<and>
   load_op quiet (jit_ok 7) (started_sys () :: (real, unit) sys) = None \<and>
   wait_if_build_started quiet (fresh_sys () :: (real, unit) sys) \<noteq> None \<and>
   wait_if_build_started (done_at 3) (started_sys () :: (real, unit) sys) \<noteq> None"
proof -
  have a: "started_file (fs_after quiet (clock (started_sys () :: (real, unit) sys))
             (fs (started_sys () :: (real, unit) sys)) 1)"
    by (simp add: started_sys_def fresh_sys_def quiet_def)
  have b: "\<forall>n\<ge>2. \<not> done_file (fs_after quiet (clock (started_sys () :: (real, unit) sys))
             (fs (started_sys () :: (real, unit) sys)) n)"
    by (simp add: fs_after_quiet started_sys_def fresh_sys_def)
  have c: "ds_opt_adam (started_sys () :: (real, unit) sys) = None"
    by (simp add: started_sys_def fresh_sys_def)
  have d: "\<not> started_file (fs_after quiet (clock (fresh_sys () :: (real, unit) sys))
             (fs (fresh_sys () :: (real, unit) sys)) 1)"
    by (simp add: fresh_sys_def quiet_def)
  have e: "done_file (fs_after (done_at 3) (clock (started_sys () :: (real, unit) sys))
             (fs (started_sys () :: (real, unit) sys)) 4)"
    by (simp add: started_sys_def fresh_sys_def done_at_def eval_nat_numeral)
  have e': "\<not> (\<forall>n\<ge>2. \<not> done_file (fs_after (done_at 3) (clock (started_sys () :: (real, unit) sys))
             (fs (started_sys () :: (real, unit) sys)) n))"
    using e by (intro notI) (drule spec[of _ 4], simp)
  show ?thesis
    using wait_if_build_started_blocks_iff[of quiet "started_sys () :: (real, unit) sys" "jit_ok 7"]
      wait_if_build_started_blocks_iff[of quiet "fresh_sys () :: (real, unit) sys" "jit_ok 7"]
      wait_if_build_started_blocks_iff[of "done_at 3" "started_sys () :: (real, unit) sys" "jit_ok 7"]
      a b c d e'
    by blast
qed

text \<open>
  Claim C1, as the code has it. With an empty class slot, \<^verbatim>\<open>started\<close> present at
  the first look and \<^verbatim>\<open>done\<close> first seen after \<open>k\<close> failed tests, the call
  sleeps \<open>k\<close> times and then does what a call that found no marker does: it touches
  \<^verbatim>\<open>started\<close>, calls the JIT loader with the sources and flags, and when that
  returns a module it caches it, touches \<^verbatim>\<open>done\<close> and returns it. There is no
  separate path that only loads a prebuilt artifact; whether the loader compiles again
  is decided inside torch.
\<close>

theorem load_op_after_wait:
  assumes "ds_opt_adam s = None"
    and "started_file (fs_after W (clock s) (fs s) 1)"
    and "\<forall>j<k. \<not> done_file (fs_after W (clock s) (fs s) (j + 2))"
    and "done_file (fs_after W (clock s) (fs s) (k + 2))"
  shows "load_op W jit s = Some (build jit (poll W (observe W (makedirs s)) k)) \<and>
         events (poll W (observe W (makedirs s)) k) =
           events s @ MakeDirs # replicate k (Sleep 1000) \<and>
         events (snd (build jit (poll W (observe W (makedirs s)) k))) =
           events s @ MakeDirs # replicate k (Sleep 1000) @ TouchStarted # JitLoad #
             (case fst (build jit (poll W (observe W (makedirs s)) k)) of
                Inl e \<Rightarrow> [] | Inr h \<Rightarrow> [TouchDone])"
proof -
  let ?s0 = "observe W (makedirs s)"
  have m: "clock (makedirs s) = clock s" "fs (makedirs s) = fs s"
     "events (makedirs s) = events s @ [MakeDirs]"
    by (simp_all add: makedirs_def emit_simps)
  have st: "started_file (fs ?s0)"
    using assms(2) by (simp add: observe_simps m)
  have pf: "fs (poll W ?s0 j) = fs_after W (clock s) (fs s) (j + 2)" for j
    by (simp only: poll_fs observe_simps fs_after_shift m) simp
  have "\<forall>j<k. \<not> done_file (fs (poll W ?s0 j))"
    using assms(3) by (simp only: pf)
  moreover have "done_file (fs (poll W ?s0 k))"
    using assms(4) by (simp only: pf)
  ultimately have "wait_loop W ?s0 = Some (poll W ?s0 k)"
    by (rule wait_loop_first)
  with st have w: "wait_if_build_started W (makedirs s) = Some (poll W ?s0 k)"
    by (simp add: wait_if_build_started_def)
  have l: "load_op W jit s = Some (build jit (poll W ?s0 k))"
    using assms(1) w by (simp add: load_op_def)
  have ev: "events (poll W ?s0 k) = events s @ MakeDirs # replicate k (Sleep 1000)"
    by (simp add: poll_events observe_simps m)
  show ?thesis
    using l ev by (simp add: build_events build_result)
qed


text \<open>
  The claim as the specification words it (the waiting call returns the handle without
  calling the compiler again) fails: \<^verbatim>\<open>started\<close> is there, \<^verbatim>\<open>done\<close> appears
  after two sleeps, and the log of the call that returns the handle holds the loader
  invocation.
\<close>

theorem load_op_reinvokes_counterexample:
  "map_option fst (load_op (done_at 3) (jit_ok 7) (started_sys () :: (real, unit) sys))
     = Some (Inr 7) \<and>
   map_option (events \<circ> snd) (load_op (done_at 3) (jit_ok 7) (started_sys () :: (real, unit) sys))
     = Some [MakeDirs, Sleep 1000, Sleep 1000, TouchStarted, JitLoad, TouchDone]"
  by (simp add: load_op_def wait_if_build_started_def wait_loop.simps build_def
        observe_def makedirs_def emit_def sleep_def touch_started_def touch_done_def
        started_sys_def fresh_sys_def done_at_def jit_ok_def)

theorem load_op_after_wait_witness:
  "ds_opt_adam (started_sys () :: (real, unit) sys) = None \<and>
   started_file (fs_after (done_at 3) 0 \<lparr>started_file = True, done_file = False\<rparr> 1) \<and>
   \<not> done_file (fs_after (done_at 3) 0 \<lparr>started_file = True, done_file = False\<rparr> 2) \<and>
   \<not> done_file (fs_after (done_at 3) 0 \<lparr>started_file = True, done_file = False\<rparr> 3) \<and>
   done_file (fs_after (done_at 3) 0 \<lparr>started_file = True, done_file = False\<rparr> 4) \<and>
   load_op (done_at 3) (jit_ok 7) (started_sys () :: (real, unit) sys) =
     Some (build (jit_ok 7)
       (poll (done_at 3) (observe (done_at 3) (makedirs (started_sys ()))) 2)) \<and>
   events (snd (build (jit_ok 7)
       (poll (done_at 3) (observe (done_at 3) (makedirs (started_sys () :: (real, unit) sys))) 2)))
     = [MakeDirs, Sleep 1000, Sleep 1000, TouchStarted, JitLoad, TouchDone]"
proof -
  let ?s = "started_sys () :: (real, unit) sys"
  have f: "fs ?s = \<lparr>started_file = True, done_file = False\<rparr>" "clock ?s = 0" "events ?s = []"
    by (simp_all add: started_sys_def fresh_sys_def)
  have h1: "ds_opt_adam ?s = None" by (simp add: started_sys_def fresh_sys_def)
  have h2: "started_file (fs_after (done_at 3) (clock ?s) (fs ?s) 1)"
    by (simp add: f done_at_def)
  have n2: "\<not> done_file (fs_after (done_at 3) 0 \<lparr>started_file = True, done_file = False\<rparr> 2)"
    and n3: "\<not> done_file (fs_after (done_at 3) 0 \<lparr>started_file = True, done_file = False\<rparr> 3)"
    and d4: "done_file (fs_after (done_at 3) 0 \<lparr>started_file = True, done_file = False\<rparr> 4)"
    by (simp_all add: done_at_def eval_nat_numeral)
  have h3: "\<forall>j<2. \<not> done_file (fs_after (done_at 3) (clock ?s) (fs ?s) (j + 2))"
  proof (intro allI impI)
    fix j :: nat assume "j < 2"
    then have "j = 0 \<or> j = 1" by arith
    then show "\<not> done_file (fs_after (done_at 3) (clock ?s) (fs ?s) (j + 2))"
      using n2 n3 by (auto simp: f numeral_3_eq_3 numeral_2_eq_2)
  qed
  have h4: "done_file (fs_after (done_at 3) (clock ?s) (fs ?s) (2 + 2))"
    using d4 by (simp add: f)
  have b: "fst (build (jit_ok 7) x) = Inr 7" for x :: "(real, unit) sys"
    by (simp add: build_def jit_ok_def)
  have r: "replicate 2 x = [x, x]" for x :: "real event"
    by (simp add: numeral_2_eq_2)
  show ?thesis
    using load_op_after_wait[OF h1 h2 h3 h4, of "jit_ok 7"] h1 h2 n2 n3 d4
    by (simp add: f b r)
qed


subsection \<open>The cached handle and the optimizer ids\<close>


lemma load_op_cached: "ds_opt_adam s = Some h \<Longrightarrow> load_op W jit s = Some (Inr h, s)"
  by (simp add: load_op_def)

lemma wait_if_Some:
  assumes "wait_if_build_started W s = Some s1"
  shows "\<exists>k. events s1 = events s @ replicate k (Sleep 1000) \<and>
             optimizer_id s1 = optimizer_id s \<and> ds_opt_adam s1 = ds_opt_adam s \<and>
             kstate s1 = kstate s"
proof (cases "started_file (fs (observe W s))")
  case True
  with assms have "wait_loop W (observe W s) = Some s1"
    by (simp add: wait_if_build_started_def)
  from wait_loop_Some[OF this] obtain k where "s1 = poll W (observe W s) k" by blast
  then show ?thesis
    by (intro exI[of _ k]) (simp add: poll_events poll_rest observe_simps)
next
  case False
  with assms have "s1 = observe W s" by (simp add: wait_if_build_started_def)
  then show ?thesis by (intro exI[of _ 0]) (simp add: observe_simps)
qed

lemma build_rest:
  "optimizer_id (snd (build jit s1)) = optimizer_id s1"
  "kstate (snd (build jit s1)) = kstate s1"
  by (simp_all add: build_def Let_def emit_simps touch_started_def touch_done_def emit_def
        split: sum.splits)

lemma load_op_Some:
  assumes "load_op W jit s = Some (r, s1)"
  shows "optimizer_id s1 = optimizer_id s \<and> kstate s1 = kstate s \<and>
         (\<forall>h. r = Inr h \<longrightarrow> ds_opt_adam s1 = Some h) \<and>
         (\<forall>e. r = Inl e \<longrightarrow> ds_opt_adam s1 = ds_opt_adam s) \<and>
         (\<forall>h. ds_opt_adam s = Some h \<longrightarrow> r = Inr h \<and> s1 = s) \<and>
         (ds_opt_adam s = None \<longrightarrow>
            (\<exists>k. events s1 = events s @ MakeDirs # replicate k (Sleep 1000) @
                    TouchStarted # JitLoad # (case r of Inl e \<Rightarrow> [] | Inr h \<Rightarrow> [TouchDone])))"
proof (cases "ds_opt_adam s")
  case (Some h)
  with assms show ?thesis by (auto simp: load_op_def)
next
  case None
  with assms obtain s0 where w: "wait_if_build_started W (makedirs s) = Some s0"
    and b: "build jit s0 = (r, s1)"
    by (auto simp: load_op_def split: option.splits)
  from wait_if_Some[OF w] obtain k where k:
    "events s0 = events s @ MakeDirs # replicate k (Sleep 1000)"
    "optimizer_id s0 = optimizer_id s" "ds_opt_adam s0 = ds_opt_adam s" "kstate s0 = kstate s"
    by (auto simp: makedirs_def emit_simps)
  have r: "r = fst (build jit s0)" and s1: "s1 = snd (build jit s0)" using b by simp_all
  have ev: "events s1 = events s @ MakeDirs # replicate k (Sleep 1000) @
              TouchStarted # JitLoad # (case r of Inl e \<Rightarrow> [] | Inr h \<Rightarrow> [TouchDone])"
    unfolding s1 r by (simp add: build_events build_result k(1))
  have sl: "ds_opt_adam s1 = (case r of Inl e \<Rightarrow> ds_opt_adam s | Inr h \<Rightarrow> Some h)"
    unfolding s1 r by (simp add: build_slot build_result k(3) split: sum.splits)
  show ?thesis
    using None ev sl by (auto simp: s1 build_rest k)
qed

lemma init_Some:
  assumes "init W jit kern mp l bs e wd ams s = Some (r, s1)"
  shows "(base_accepts mp \<longrightarrow> optimizer_id s1 = optimizer_id s + 1) \<and>
         (\<not> base_accepts mp \<longrightarrow> r = Inl ValueError \<and> s1 = s) \<and>
         (\<forall>ob. r = Inr ob \<longrightarrow> base_accepts mp \<and> opt_id ob = optimizer_id s \<and>
               param_groups ob = map (default_group l bs e wd ams) mp \<and> state ob = Map.empty) \<and>
         (\<forall>h. ds_opt_adam s = Some h \<longrightarrow> ds_opt_adam s1 = Some h \<and>
              (\<exists>E. events s1 = events s @ E \<and> (\<forall>ev \<in> set E. handle_of ev = Some h))) \<and>
         (\<forall>ob. r = Inr ob \<longrightarrow> ds_opt_adam s1 \<noteq> None)"
proof (cases "base_accepts mp")
  case False
  with assms have "r = Inl ValueError" "s1 = s"
    by (simp_all add: init_def optimizer_init_def)
  with False show ?thesis by simp
next
  case True
  let ?s0 = "s\<lparr>optimizer_id := optimizer_id s + 1\<rparr>"
  from assms True obtain r0 s2 where l: "load_op W jit ?s0 = Some (r0, s2)"
    by (auto simp: init_def optimizer_init_def Let_def split: option.splits)
  note L = load_op_Some[OF l]
  show ?thesis
  proof (cases r0)
    case (Inl err)
    with assms l True have "r = Inl err" "s1 = s2"
      by (simp_all add: init_def optimizer_init_def Let_def)
    with L Inl True show ?thesis by auto
  next
    case (Inr h)
    with L have sl: "ds_opt_adam s2 = Some h" by simp
    have same: "ds_opt_adam s = Some h' \<Longrightarrow> h' = h \<and> s2 = ?s0" for h'
      using L Inr by simp
    show ?thesis
    proof (cases bs)
      case Nil
      with assms l Inr True have "r = Inl IndexError" "s1 = s2"
        by (simp_all add: init_def optimizer_init_def Let_def)
      with L sl same True show ?thesis by auto
    next
      case (Cons b1 bs')
      show ?thesis
      proof (cases bs')
        case Nil
        with Cons assms l Inr True have "r = Inl IndexError" "s1 = s2"
          by (simp_all add: init_def optimizer_init_def Let_def)
        with L sl same True show ?thesis by auto
      next
        case (Cons b2 bs'')
        with \<open>bs = b1 # bs'\<close> assms l Inr True
        have s1: "s1 = (emit (CreateAdam h (optimizer_id s) l b1 b2 e wd) s2)
                   \<lparr>kstate := fst (create_adam (kern h)
                      (kstate (emit (CreateAdam h (optimizer_id s) l b1 b2 e wd) s2))
                      (optimizer_id s) l b1 b2 e wd)\<rparr>"
          and r: "\<And>ob. r = Inr ob \<Longrightarrow> ob = \<lparr>opt_id = optimizer_id s,
                   param_groups = map (default_group l bs e wd ams) mp, state = Map.empty\<rparr>"
          by (auto simp: init_def optimizer_init_def Let_def split: prod.splits option.splits)
        show ?thesis
          using L sl same r True by (auto simp: s1 emit_simps)
      qed
    qed
  qed
qed

lemma constructs_Some:
  "constructs W jit kern cs s = Some (rs, s1) \<Longrightarrow>
   length rs = length cs \<and>
   optimizer_id s1 = optimizer_id s + int (length (filter takes_id cs)) \<and>
   (\<forall>i<length rs. \<forall>ob. rs ! i = Inr ob \<longrightarrow> takes_id (cs ! i) \<and>
        opt_id ob = optimizer_id s + int (length (filter takes_id (take i cs)))) \<and>
   (\<forall>i<length rs. \<not> takes_id (cs ! i) \<longrightarrow> rs ! i = Inl ValueError) \<and>
   (\<forall>h. ds_opt_adam s = Some h \<longrightarrow> ds_opt_adam s1 = Some h \<and>
        (\<exists>E. events s1 = events s @ E \<and> (\<forall>ev \<in> set E. handle_of ev = Some h)))"
proof (induction cs arbitrary: s rs)
  case Nil
  then show ?case by simp
next
  case (Cons c cs)
  obtain mp l bs e wd ams where c: "c = (mp, l, bs, e, wd, ams)" by (cases c) auto
  then have t: "takes_id c = base_accepts mp" by (simp add: takes_id_def)
  from Cons.prems c obtain r s0 rs0 where
    i: "init W jit kern mp l bs e wd ams s = Some (r, s0)"
    and cs: "constructs W jit kern cs s0 = Some (rs0, s1)" and rs: "rs = r # rs0"
    by (auto split: option.splits)
  note I = init_Some[OF i]
  note IH = Cons.IH[OF cs]
  have o: "optimizer_id s0 = optimizer_id s + int (length (filter takes_id [c]))"
    using I t by (cases "base_accepts mp") simp_all
  have ids: "\<forall>i<length rs. \<forall>ob. rs ! i = Inr ob \<longrightarrow> takes_id ((c # cs) ! i) \<and>
      opt_id ob = optimizer_id s + int (length (filter takes_id (take i (c # cs))))"
  proof (intro allI impI)
    fix i ob assume a: "i < length rs" "rs ! i = Inr ob"
    show "takes_id ((c # cs) ! i) \<and>
      opt_id ob = optimizer_id s + int (length (filter takes_id (take i (c # cs))))"
    proof (cases i)
      case 0
      with a rs I t show ?thesis by simp
    next
      case (Suc k)
      with a rs have "k < length rs0" "rs0 ! k = Inr ob" by simp_all
      with IH have "takes_id (cs ! k) \<and>
        opt_id ob = optimizer_id s0 + int (length (filter takes_id (take k cs)))" by simp
      with o Suc show ?thesis by simp
    qed
  qed
  have rej: "\<forall>i<length rs. \<not> takes_id ((c # cs) ! i) \<longrightarrow> rs ! i = Inl ValueError"
  proof (intro allI impI)
    fix i assume a: "i < length rs" "\<not> takes_id ((c # cs) ! i)"
    show "rs ! i = Inl ValueError"
    proof (cases i)
      case 0
      with a rs I t show ?thesis by simp
    next
      case (Suc k)
      with a rs have "k < length rs0" "\<not> takes_id (cs ! k)" by simp_all
      with IH have "rs0 ! k = Inl ValueError" by simp
      with rs Suc show ?thesis by simp
    qed
  qed
  have sl: "ds_opt_adam s1 = Some h \<and>
        (\<exists>E. events s1 = events s @ E \<and> (\<forall>ev \<in> set E. handle_of ev = Some h))"
    if h: "ds_opt_adam s = Some h" for h
  proof -
    from I h obtain E0 where e0: "ds_opt_adam s0 = Some h" "events s0 = events s @ E0"
      "\<forall>ev \<in> set E0. handle_of ev = Some h" by blast
    from IH e0(1) obtain E1 where e1: "ds_opt_adam s1 = Some h" "events s1 = events s0 @ E1"
      "\<forall>ev \<in> set E1. handle_of ev = Some h" by blast
    have "events s1 = events s @ (E0 @ E1)" using e0 e1 by simp
    moreover have "\<forall>ev \<in> set (E0 @ E1). handle_of ev = Some h" using e0 e1 by auto
    ultimately show ?thesis using e1(1) by blast
  qed
  have len: "length rs = length (c # cs)" using IH rs by simp
  have cnt: "optimizer_id s1 = optimizer_id s + int (length (filter takes_id (c # cs)))"
    using o IH by simp
  have slot: "\<forall>h. ds_opt_adam s = Some h \<longrightarrow> ds_opt_adam s1 = Some h \<and>
        (\<exists>E. events s1 = events s @ E \<and> (\<forall>ev \<in> set E. handle_of ev = Some h))"
    using sl by (intro allI impI)
  show ?case by (intro conjI) (rule len, rule cnt, rule ids, rule rej, rule slot)
qed

lemma filter_take_mono:
  assumes "i < j" "j \<le> length xs" "P (xs ! i)"
  shows "length (filter P (take i xs)) < length (filter P (take j xs))"
proof -
  from assms have "take j xs = take (i + Suc (j - Suc i)) xs" by simp
  also have "... = take i xs @ take (Suc (j - Suc i)) (drop i xs)" by (rule take_add)
  also have "drop i xs = xs ! i # drop (Suc i) xs"
    using assms by (simp add: Cons_nth_drop_Suc)
  finally have "take j xs = take i xs @ xs ! i # take (j - Suc i) (drop (Suc i) xs)" by simp
  with assms show ?thesis by simp
qed


text \<open>
  Claim C5. In a run of constructions, a construction that the base class accepts
  (\<open>takes_id\<close>: the parameter list is not empty and no parameter is in two groups)
  takes the current value of the class counter as its \<open>opt_id\<close> and raises the
  counter by exactly one, also when it raises afterwards in \<^verbatim>\<open>load_op\<close> or on the way
  to \<^verbatim>\<open>create_adam\<close>; a construction that the base class refuses raises
  \<^verbatim>\<open>ValueError\<close>, takes no id and leaves the counter as it was. So the
  \<open>opt_id\<close> of an instance is the start value of the counter, \<open>0\<close> in a new
  process, plus the number of earlier constructions that took an id; it is the number of
  constructions before it when all of them returned an instance; and two different
  instances never have the same \<open>opt_id\<close>.
\<close>

theorem constructs_opt_ids:
  assumes "constructs W jit kern cs s = Some (rs, s1)"
  shows "length rs = length cs \<and>
    optimizer_id s1 = optimizer_id s + int (length (filter takes_id cs)) \<and>
    (\<forall>i<length rs. \<not> takes_id (cs ! i) \<longrightarrow> rs ! i = Inl ValueError) \<and>
    (\<forall>i<length rs. \<forall>ob. rs ! i = Inr ob \<longrightarrow> takes_id (cs ! i) \<and>
        opt_id ob = optimizer_id s + int (length (filter takes_id (take i cs)))) \<and>
    (\<forall>i<length rs. \<forall>ob. rs ! i = Inr ob \<longrightarrow> (\<forall>j<i. \<exists>a. rs ! j = Inr a) \<longrightarrow>
        opt_id ob = optimizer_id s + int i) \<and>
    (\<forall>i<length rs. \<forall>j<length rs. \<forall>a b. rs ! i = Inr a \<longrightarrow> rs ! j = Inr b \<longrightarrow> i \<noteq> j \<longrightarrow>
        opt_id a \<noteq> opt_id b)"
proof -
  note C = constructs_Some[OF assms]
  from C have len: "length rs = length cs" by simp
  from C have cnt: "optimizer_id s1 = optimizer_id s + int (length (filter takes_id cs))"
    by simp
  from C have rej: "\<forall>i<length rs. \<not> takes_id (cs ! i) \<longrightarrow> rs ! i = Inl ValueError"
    by simp
  from C have ids: "\<forall>i<length rs. \<forall>ob. rs ! i = Inr ob \<longrightarrow> takes_id (cs ! i) \<and>
        opt_id ob = optimizer_id s + int (length (filter takes_id (take i cs)))" by simp
  have all: "opt_id ob = optimizer_id s + int i"
    if "i < length rs" "rs ! i = Inr ob" "\<forall>j<i. \<exists>a. rs ! j = Inr a" for i ob
  proof -
    have "\<forall>c \<in> set (take i cs). takes_id c"
    proof
      fix c assume "c \<in> set (take i cs)"
      then obtain j where j: "j < i" "j < length cs" "c = cs ! j"
        by (auto simp: in_set_conv_nth)
      with that(3) obtain a where "rs ! j = Inr a" by blast
      with ids j len show "takes_id c" by simp
    qed
    then have "filter takes_id (take i cs) = take i cs" by simp
    with ids that(1,2) len show ?thesis by simp
  qed
  have lt: "opt_id a < opt_id b"
    if "i < j" "j < length rs" "rs ! i = Inr a" "rs ! j = Inr b" for i j a b
  proof -
    from that have i: "i < length rs" by simp
    from ids i that(3) have a: "takes_id (cs ! i)"
      "opt_id a = optimizer_id s + int (length (filter takes_id (take i cs)))" by simp_all
    from ids that(2,4) have b:
      "opt_id b = optimizer_id s + int (length (filter takes_id (take j cs)))" by simp
    from filter_take_mono[of i j cs takes_id] that(1,2) len a(1)
    have "length (filter takes_id (take i cs)) < length (filter takes_id (take j cs))" by simp
    with a(2) b show ?thesis by simp
  qed
  have dist: "opt_id a \<noteq> opt_id b"
    if "i < length rs" "j < length rs" "rs ! i = Inr a" "rs ! j = Inr b" "i \<noteq> j" for i j a b
  proof (cases "i < j")
    case True
    from lt[OF True that(2,3,4)] show ?thesis by simp
  next
    case False
    with that(5) have "j < i" by simp
    from lt[OF this that(1,4,3)] show ?thesis by simp
  qed
  have all': "\<forall>i<length rs. \<forall>ob. rs ! i = Inr ob \<longrightarrow> (\<forall>j<i. \<exists>a. rs ! j = Inr a) \<longrightarrow>
        opt_id ob = optimizer_id s + int i"
    using all by (intro allI impI)
  have dist': "\<forall>i<length rs. \<forall>j<length rs. \<forall>a b. rs ! i = Inr a \<longrightarrow> rs ! j = Inr b \<longrightarrow>
        i \<noteq> j \<longrightarrow> opt_id a \<noteq> opt_id b"
    using dist by (intro allI impI)
  show ?thesis by (intro conjI) (rule len, rule cnt, rule rej, rule ids, rule all', rule dist')
qed



lemmas sys_ops = load_op_def wait_if_build_started_def build_def observe_def makedirs_def
  emit_def sleep_def touch_started_def touch_done_def




lemmas ctor_defs = ctor_default_def ctor_short_betas_def ctor_empty_def

lemma takes_id_examples:
  "takes_id ctor_default" "takes_id ctor_short_betas" "\<not> takes_id ctor_empty"
  by (simp_all add: takes_id_def base_accepts_def ctor_defs)

theorem constructs_opt_ids_witness:
  "map takes_id [ctor_default, ctor_empty, ctor_short_betas, ctor_default]
     = [True, False, True, True] \<and>
   map_option (length \<circ> fst)
     (constructs quiet (jit_ok 7) spec_kernel
        [ctor_default, ctor_empty, ctor_short_betas, ctor_default] fresh_adam_sys) = Some 4 \<and>
   map_option (optimizer_id \<circ> snd)
     (constructs quiet (jit_ok 7) spec_kernel
        [ctor_default, ctor_empty, ctor_short_betas, ctor_default] fresh_adam_sys) = Some 3 \<and>
   map_option (map (map_sum id opt_id) \<circ> fst)
     (constructs quiet (jit_ok 7) spec_kernel
        [ctor_default, ctor_empty, ctor_short_betas, ctor_default] fresh_adam_sys)
     = Some [Inr 0, Inl ValueError, Inl IndexError, Inr 2]"
proof -
  let ?cs = "[ctor_default, ctor_empty, ctor_short_betas, ctor_default]"
  let ?run = "constructs quiet (jit_ok 7) spec_kernel ?cs fresh_adam_sys"
  note defs = ctor_defs init_def optimizer_init_def base_accepts_def Let_def sys_ops
      fresh_adam_sys_def fresh_sys_def quiet_def jit_ok_def spec_kernel_def spec_create_def
  have t: "map takes_id ?cs = [True, False, True, True]"
    by (simp add: takes_id_examples)
  have o: "optimizer_id fresh_adam_sys = 0" by (simp add: fresh_adam_sys_def fresh_sys_def)
  have "\<exists>rs s1. ?run = Some (rs, s1)" by (simp add: defs)
  then obtain rs s1 where c: "?run = Some (rs, s1)" by blast
  have "map_option (map (map_sum id (\<lambda>ob. ())) \<circ> fst) ?run
          = Some [Inr (), Inl ValueError, Inl IndexError, Inr ()]"
    by (simp add: defs)
  with c have sh: "map (map_sum id (\<lambda>ob. ())) rs = [Inr (), Inl ValueError, Inl IndexError, Inr ()]"
    by simp
  then obtain r0 r1 r2 r3 where rs: "rs = [r0, r1, r2, r3]"
    by (auto simp: map_eq_Cons_conv)
  with sh obtain a b where ab: "r0 = Inr a" "r2 = Inl IndexError" "r3 = Inr b"
    by (cases r0; cases r2; cases r3) auto
  note C = constructs_opt_ids[OF c]
  from C[THEN conjunct1] have len: "length rs = 4" by simp
  from C[THEN conjunct2, THEN conjunct1] o have cnt: "optimizer_id s1 = 3"
    by (simp add: takes_id_examples)
  note rej = C[THEN conjunct2, THEN conjunct2, THEN conjunct1, rule_format]
  note ids = C[THEN conjunct2, THEN conjunct2, THEN conjunct2, THEN conjunct1, rule_format]
  from rej[of 1] rs have r1: "r1 = Inl ValueError"
    by (simp add: takes_id_examples)
  from ids[of 0 a] rs ab o have a: "opt_id a = 0" by simp
  from ids[of 3 b] rs ab o have b: "opt_id b = 2"
    by (simp add: takes_id_examples)
  from rs ab r1 a b have "map (map_sum id opt_id) rs
      = [Inr 0, Inl ValueError, Inl IndexError, Inr 2]" by simp
  with t c len cnt show ?thesis by simp
qed


text \<open>
  The claim as the specification words it (the \<open>opt_id\<close> of an instance is the number
  of instances constructed before it, the counter being raised by one per construction)
  fails. In a new process a first construction with an empty parameter list raises
  \<^verbatim>\<open>ValueError\<close> in the base class and takes no id, a second one with a short
  \<open>betas\<close> takes the id \<open>0\<close> and raises \<^verbatim>\<open>IndexError\<close>, and the third
  returns the first instance of the process, with \<open>opt_id = 1\<close>: neither the number
  of instances before it, \<open>0\<close>, nor the number of constructions before it, \<open>2\<close>.
  The counter ends at \<open>2\<close> after three constructions.
\<close>

theorem opt_id_counterexample:
  "map_option (map (map_sum id opt_id) \<circ> fst)
     (constructs quiet (jit_ok 7) spec_kernel
        [ctor_empty, ctor_short_betas, ctor_default] fresh_adam_sys)
     = Some [Inl ValueError, Inl IndexError, Inr 1] \<and>
   map_option (optimizer_id \<circ> snd)
     (constructs quiet (jit_ok 7) spec_kernel
        [ctor_empty, ctor_short_betas, ctor_default] fresh_adam_sys) = Some 2"
  by (simp add: ctor_defs init_def optimizer_init_def base_accepts_def Let_def sys_ops
      fresh_adam_sys_def fresh_sys_def quiet_def jit_ok_def spec_kernel_def spec_create_def)




subsection \<open>One parameter of one \<^verbatim>\<open>step\<close> call\<close>


lemma mem_simps:
  "heap (log ev M) = heap M" "opt (log ev M) = opt M"
  "fp16_param_groups (log ev M) = fp16_param_groups M"
  "sys_of (log ev M) = emit ev (sys_of M)"
  "heap (set_state p ps M) = heap M"
  "opt (set_state p ps M) = (opt M)\<lparr>state := (state (opt M))(p \<mapsto> ps)\<rparr>"
  "fp16_param_groups (set_state p ps M) = fp16_param_groups M"
  "sys_of (set_state p ps M) = sys_of M"
  "heap (set_data p t M) = (heap M)(p := (heap M p)\<lparr>data := t\<rparr>)"
  "opt (set_data p t M) = opt M"
  "fp16_param_groups (set_data p t M) = fp16_param_groups M"
  "sys_of (set_data p t M) = sys_of M"
  "heap (set_kstate k M) = heap M" "opt (set_kstate k M) = opt M"
  "fp16_param_groups (set_kstate k M) = fp16_param_groups M"
  "sys_of (set_kstate k M) = (sys_of M)\<lparr>kstate := k\<rparr>"
  by (simp_all add: log_def set_state_def set_data_def set_kstate_def)

lemma track_fields:
  assumes "track g i p M = (ps1, M2)"
  shows "state (opt M2) = (state (opt M))(p \<mapsto> ps1)"
    and "step_count ps1 = step_of (state (opt M) p) + 1"
    and "heap M2 = heap M"
    and "opt_id (opt M2) = opt_id (opt M)"
    and "param_groups (opt M2) = param_groups (opt M)"
    and "fp16_param_groups M2 = fp16_param_groups M"
    and "state (opt M) p = None \<Longrightarrow>
           exp_avg ps1 = zeros_like_cpu (data (heap M p)) \<and>
           exp_avg_sq ps1 = zeros_like_cpu (data (heap M p)) \<and>
           sys_of M2 = emit (PrintState g i (numel (data (heap M p)))) (sys_of M)"
    and "\<And>ps. state (opt M) p = Some ps \<Longrightarrow>
           exp_avg ps1 = exp_avg ps \<and> exp_avg_sq ps1 = exp_avg_sq ps \<and> sys_of M2 = sys_of M"
  using assms
  by (auto simp: track_def Let_def mem_simps fresh_state_def step_of_def split: option.splits)

lemma call_adam_update_fields:
  assumes "call_adam_update kern h p gr ps M = (e, M')"
  shows "opt_id (opt M') = opt_id (opt M) \<and>
     param_groups (opt M') = param_groups (opt M) \<and>
     (\<forall>q. grad (heap M' q) = grad (heap M q)) \<and>
     (\<forall>q. q \<noteq> p \<longrightarrow> heap M' q = heap M q \<and> state (opt M') q = state (opt M) q) \<and>
     (\<exists>ps'. state (opt M') p = Some ps' \<and> step_count ps' = step_count ps) \<and>
     fp16_param_groups M' = fp16_param_groups M \<and>
     fs (sys_of M') = fs (sys_of M) \<and> clock (sys_of M') = clock (sys_of M) \<and>
     optimizer_id (sys_of M') = optimizer_id (sys_of M) \<and>
     ds_opt_adam (sys_of M') = ds_opt_adam (sys_of M) \<and>
     events (sys_of M') = events (sys_of M) @
           [AdamUpdate h (opt_id (opt M)) p (data (heap M p)) gr (exp_avg ps) (exp_avg_sq ps)]"
proof -
  have "M' = snd (call_adam_update kern h p gr ps M)" using assms by simp
  then show ?thesis
    by (simp add: call_adam_update_def Let_def mem_simps emit_simps)
qed

lemma call_adam_update_copy_fields:
  assumes "call_adam_update_copy kern h p gr ps F g i M = (e, M')"
  shows "opt_id (opt M') = opt_id (opt M) \<and>
     param_groups (opt M') = param_groups (opt M) \<and>
     (\<forall>q. grad (heap M' q) = grad (heap M q)) \<and>
     (\<forall>q. q \<noteq> p \<longrightarrow> heap M' q = heap M q \<and> state (opt M') q = state (opt M) q) \<and>
     (\<exists>ps'. state (opt M') p = Some ps' \<and> step_count ps' = step_count ps) \<and>
     (\<exists>t. fp16_param_groups M' = Some (F[g := (F ! g)[i := t]])) \<and>
     fs (sys_of M') = fs (sys_of M) \<and> clock (sys_of M') = clock (sys_of M) \<and>
     optimizer_id (sys_of M') = optimizer_id (sys_of M) \<and>
     ds_opt_adam (sys_of M') = ds_opt_adam (sys_of M) \<and>
     events (sys_of M') = events (sys_of M) @
           [AdamUpdateCopy h (opt_id (opt M)) p (data (heap M p)) gr (exp_avg ps) (exp_avg_sq ps)
              (g, i) (F ! g ! i)]"
proof -
  have "M' = snd (call_adam_update_copy kern h p gr ps F g i M)" using assms by simp
  then show ?thesis
    by (simp add: call_adam_update_copy_def Let_def mem_simps emit_simps) blast
qed

lemma dispatch_fields:
  assumes "dispatch kern h g i p gr ps M = (e, M')" and "state (opt M) p = Some ps"
  shows "opt_id (opt M') = opt_id (opt M) \<and>
     param_groups (opt M') = param_groups (opt M) \<and>
     (\<forall>q. grad (heap M' q) = grad (heap M q)) \<and>
     (\<forall>q. q \<noteq> p \<longrightarrow> heap M' q = heap M q \<and> state (opt M') q = state (opt M) q) \<and>
     (\<exists>ps'. state (opt M') p = Some ps' \<and> step_count ps' = step_count ps) \<and>
     (fp16_param_groups M = None \<longrightarrow> fp16_param_groups M' = None) \<and>
     fs (sys_of M') = fs (sys_of M) \<and> clock (sys_of M') = clock (sys_of M) \<and>
     optimizer_id (sys_of M') = optimizer_id (sys_of M) \<and>
     ds_opt_adam (sys_of M') = ds_opt_adam (sys_of M)"
proof -
  consider (copy) F where "fp16_param_groups M = Some F" "g < length F \<and> i < length (F ! g)"
      "call_adam_update_copy kern h p gr ps F g i M = (e, M')"
    | (index) F where "fp16_param_groups M = Some F" "\<not> (g < length F \<and> i < length (F ! g))"
      "e = Some IndexError" "M' = M"
    | (plain) "fp16_param_groups M = None" "call_adam_update kern h p gr ps M = (e, M')"
    using assms(1) by (auto simp: dispatch_def split: option.splits if_splits)
  then show ?thesis
  proof cases
    case copy
    from call_adam_update_copy_fields[OF copy(3)] copy(1) show ?thesis by simp
  next
    case index
    with assms(2) show ?thesis by simp
  next
    case plain
    from call_adam_update_fields[OF plain(2)] plain(1) show ?thesis by simp
  qed
qed



lemma step_param_skip:
  "grad (heap M p) = None \<Longrightarrow> step_param W jit kern g i p M = Some (None, M)"
  by (simp add: step_param_def)

lemma step_param_cases:
  assumes "step_param W jit kern g i p M = Some (r, M')"
  obtains (skip) "grad (heap M p) = None" "r = None" "M' = M"
  | (load_fail) gr ps1 M2 err s where "grad (heap M p) = Some gr" "track g i p M = (ps1, M2)"
      "load_op W jit (sys_of M2) = Some (Inl err, s)" "r = Some err" "M' = M2\<lparr>sys_of := s\<rparr>"
  | (call) gr ps1 M2 h s where "grad (heap M p) = Some gr" "track g i p M = (ps1, M2)"
      "load_op W jit (sys_of M2) = Some (Inr h, s)"
      "dispatch kern h g i p gr ps1 (M2\<lparr>sys_of := s\<rparr>) = (r, M')"
proof (cases "grad (heap M p)")
  case None
  with assms have "r = None" "M' = M" by (simp_all add: step_param_def)
  with None show ?thesis by (rule skip)
next
  case (Some gr)
  obtain ps1 M2 where t: "track g i p M = (ps1, M2)" by (cases "track g i p M")
  from assms Some t obtain r0 s where l: "load_op W jit (sys_of M2) = Some (r0, s)"
    by (auto simp: step_param_def split: option.splits)
  show ?thesis
  proof (cases r0)
    case (Inl err)
    with assms Some t l have "r = Some err" "M' = M2\<lparr>sys_of := s\<rparr>"
      by (simp_all add: step_param_def)
    with Some t l Inl show ?thesis by (intro load_fail) simp_all
  next
    case (Inr h)
    with assms Some t l have "dispatch kern h g i p gr ps1 (M2\<lparr>sys_of := s\<rparr>) = (r, M')"
      by (simp add: step_param_def)
    with Some t l Inr show ?thesis by (intro call) simp_all
  qed
qed

lemma step_param_frame:
  assumes "step_param W jit kern g i p M = Some (r, M')"
  shows "opt_id (opt M') = opt_id (opt M) \<and>
     param_groups (opt M') = param_groups (opt M) \<and>
     (\<forall>q. grad (heap M' q) = grad (heap M q)) \<and>
     (\<forall>q. q \<noteq> p \<longrightarrow> heap M' q = heap M q \<and> state (opt M') q = state (opt M) q) \<and>
     (grad (heap M p) = None \<longrightarrow> M' = M \<and> r = None) \<and>
     (grad (heap M p) \<noteq> None \<longrightarrow> state (opt M') p \<noteq> None \<and>
        step_of (state (opt M') p) = step_of (state (opt M) p) + 1) \<and>
     (fp16_param_groups M = None \<longrightarrow> fp16_param_groups M' = None) \<and>
     optimizer_id (sys_of M') = optimizer_id (sys_of M) \<and>
     (\<forall>h. ds_opt_adam (sys_of M) = Some h \<longrightarrow> ds_opt_adam (sys_of M') = Some h)"
  using assms
proof (cases rule: step_param_cases)
  case skip
  then show ?thesis by simp
next
  case (load_fail gr ps1 M2 err s)
  note T = track_fields[OF load_fail(2)]
  note L = load_op_Some[OF load_fail(3)]
  have sys: "optimizer_id (sys_of M2) = optimizer_id (sys_of M)"
    "ds_opt_adam (sys_of M2) = ds_opt_adam (sys_of M)"
    using T(7,8) by (cases "state (opt M) p"; simp add: emit_simps)+
  show ?thesis
    using T(1-6) L sys load_fail(1,5) by (auto simp: step_of_def)
next
  case (call gr ps1 M2 h s)
  note T = track_fields[OF call(2)]
  note L = load_op_Some[OF call(3)]
  have sys: "optimizer_id (sys_of M2) = optimizer_id (sys_of M)"
    "ds_opt_adam (sys_of M2) = ds_opt_adam (sys_of M)"
    using T(7,8) by (cases "state (opt M) p"; simp add: emit_simps)+
  have st: "state (opt (M2\<lparr>sys_of := s\<rparr>)) p = Some ps1" using T(1) by simp
  note D = dispatch_fields[OF call(4) st]
  from D obtain ps' where ps': "state (opt M') p = Some ps'" "step_count ps' = step_count ps1"
    by blast
  have a: "opt_id (opt M') = opt_id (opt M)" "param_groups (opt M') = param_groups (opt M)"
    using D T(4,5) by simp_all
  have b: "grad (heap M' q) = grad (heap M q)" for q using D T(3) by simp
  have c: "heap M' q = heap M q \<and> state (opt M') q = state (opt M) q" if "q \<noteq> p" for q
    using D T(1,3) that by simp
  have d: "step_of (state (opt M') p) = step_of (state (opt M) p) + 1"
    using ps' T(2) by (simp add: step_of_def)
  have e: "fp16_param_groups M = None \<longrightarrow> fp16_param_groups M' = None"
    using D T(6) by simp
  have f: "optimizer_id (sys_of M') = optimizer_id (sys_of M)"
    using D L sys by simp
  have g: "ds_opt_adam (sys_of M) = Some h' \<longrightarrow> ds_opt_adam (sys_of M') = Some h'" for h'
    using D L sys by auto
  show ?thesis using a b c d e f g ps'(1) call(1) by auto
qed

lemma step_entries_append:
  "step_entries W jit kern (xs @ ys) M =
     (case step_entries W jit kern xs M of
        None \<Rightarrow> None
      | Some (Some err, M1) \<Rightarrow> Some (Some err, M1)
      | Some (None, M1) \<Rightarrow> step_entries W jit kern ys M1)"
proof (induction xs arbitrary: M)
  case Nil
  show ?case by simp
next
  case (Cons x xs)
  obtain g i p where x: "x = (g, i, p)" by (cases x) auto
  show ?case
    by (simp add: x Cons.IH split: option.splits prod.splits)
qed

lemma step_params_flat:
  "step_params W jit kern g (enumerate n ps) M =
   step_entries W jit kern (map (\<lambda>(i, p). (g, i, p)) (enumerate n ps)) M"
proof (induction ps arbitrary: n M)
  case Nil
  show ?case by simp
next
  case (Cons p ps)
  show ?case
    by (simp add: Cons.IH split: option.splits prod.splits)
qed

lemma step_groups_flat:
  "step_groups W jit kern (enumerate n gs) M =
   step_entries W jit kern
     (concat (map (\<lambda>(g, G). group_entries g (params G)) (enumerate n gs))) M"
proof (induction gs arbitrary: n M)
  case Nil
  show ?case by simp
next
  case (Cons G gs)
  show ?case
    by (simp add: Cons.IH step_params_flat step_entries_append group_entries_def
          split: option.splits prod.splits)
qed

lemma step_groups_entries:
  "step_groups W jit kern (enumerate 0 gs) M = step_entries W jit kern (entries gs) M"
  by (simp add: step_groups_flat entries_def)


subsection \<open>Iterating over the groups\<close>


lemma load_op_events:
  assumes "load_op W jit s = Some (r, s1)"
  shows "\<exists>E. events s1 = events s @ E \<and> (\<forall>ev\<in>set E. pid_of ev = None \<and> handle_of ev = None)"
proof (cases "ds_opt_adam s")
  case None
  with load_op_Some[OF assms] obtain k where
    "events s1 = events s @ MakeDirs # replicate k (Sleep 1000) @
        TouchStarted # JitLoad # (case r of Inl e \<Rightarrow> [] | Inr h \<Rightarrow> [TouchDone])" by auto
  then show ?thesis by (auto split: sum.splits)
next
  case (Some h)
  with load_op_Some[OF assms] have "s1 = s" by blast
  then show ?thesis by simp
qed

lemma track_events:
  assumes "track g i p M = (ps1, M2)"
  shows "\<exists>E. events (sys_of M2) = events (sys_of M) @ E \<and>
             (\<forall>ev\<in>set E. pid_of ev = None \<and> handle_of ev = None)"
  using track_fields(7,8)[OF assms]
  by (cases "state (opt M) p") (simp_all add: emit_simps)

lemma dispatch_events:
  assumes "dispatch kern h g i p gr ps M = (e, M')"
  shows "\<exists>E. events (sys_of M') = events (sys_of M) @ E \<and>
             (\<forall>ev\<in>set E. pid_of ev = Some p \<and> handle_of ev = Some h)"
proof -
  consider (copy) F where "fp16_param_groups M = Some F" "g < length F \<and> i < length (F ! g)"
      "call_adam_update_copy kern h p gr ps F g i M = (e, M')"
    | (index) "M' = M"
    | (plain) "fp16_param_groups M = None" "call_adam_update kern h p gr ps M = (e, M')"
    using assms(1) by (auto simp: dispatch_def split: option.splits if_splits)
  then show ?thesis
  proof cases
    case copy
    from call_adam_update_copy_fields[OF copy(3)] show ?thesis by simp
  next
    case index
    then show ?thesis by simp
  next
    case plain
    from call_adam_update_fields[OF plain(2)] show ?thesis by simp
  qed
qed

lemma step_param_events:
  assumes "step_param W jit kern g i p M = Some (r, M')"
  shows "\<exists>E. events (sys_of M') = events (sys_of M) @ E \<and>
             (\<forall>ev\<in>set E. \<forall>q. pid_of ev = Some q \<longrightarrow> q = p \<and> grad (heap M p) \<noteq> None)"
  using assms
proof (cases rule: step_param_cases)
  case skip
  then show ?thesis by simp
next
  case (load_fail gr ps1 M2 err s)
  from track_events[OF load_fail(2)] obtain E1 where
    E1: "events (sys_of M2) = events (sys_of M) @ E1" "\<forall>ev\<in>set E1. pid_of ev = None" by blast
  from load_op_events[OF load_fail(3)] obtain E2 where
    E2: "events s = events (sys_of M2) @ E2" "\<forall>ev\<in>set E2. pid_of ev = None" by blast
  have "events (sys_of M') = events (sys_of M) @ (E1 @ E2)"
    using E1 E2 load_fail(5) by simp
  moreover have "\<forall>ev\<in>set (E1 @ E2). pid_of ev = None" using E1 E2 by auto
  ultimately show ?thesis by (intro exI[of _ "E1 @ E2"]) simp
next
  case (call gr ps1 M2 h s)
  from track_events[OF call(2)] obtain E1 where
    E1: "events (sys_of M2) = events (sys_of M) @ E1" "\<forall>ev\<in>set E1. pid_of ev = None" by blast
  from load_op_events[OF call(3)] obtain E2 where
    E2: "events s = events (sys_of M2) @ E2" "\<forall>ev\<in>set E2. pid_of ev = None" by blast
  from dispatch_events[OF call(4)] obtain E3 where
    E3: "events (sys_of M') = events s @ E3" "\<forall>ev\<in>set E3. pid_of ev = Some p" by auto
  have "events (sys_of M') = events (sys_of M) @ (E1 @ E2 @ E3)"
    using E1 E2 E3 by simp
  moreover have "\<forall>ev\<in>set (E1 @ E2 @ E3). \<forall>q. pid_of ev = Some q \<longrightarrow> q = p \<and> grad (heap M p) \<noteq> None"
    using E1 E2 E3 call(1) by auto
  ultimately show ?thesis by blast
qed

lemma step_param_untouched:
  assumes "step_param W jit kern g i p M = Some (r, M')"
    and "q \<noteq> p \<or> grad (heap M q) = None"
  shows "heap M' q = heap M q \<and> state (opt M') q = state (opt M) q"
proof (cases "q = p")
  case True
  with assms(2) have "grad (heap M p) = None" by simp
  with step_param_frame[OF assms(1)] have "M' = M" by simp
  then show ?thesis by simp
next
  case False
  with step_param_frame[OF assms(1)] show ?thesis by simp
qed

lemma step_entries_frame:
  "step_entries W jit kern es M = Some (r, M') \<Longrightarrow>
     opt_id (opt M') = opt_id (opt M) \<and>
     param_groups (opt M') = param_groups (opt M) \<and>
     (\<forall>q. grad (heap M' q) = grad (heap M q)) \<and>
     (\<forall>q. (q \<notin> set (map (snd \<circ> snd) es) \<or> grad (heap M q) = None) \<longrightarrow>
          heap M' q = heap M q \<and> state (opt M') q = state (opt M) q) \<and>
     (fp16_param_groups M = None \<longrightarrow> fp16_param_groups M' = None) \<and>
     optimizer_id (sys_of M') = optimizer_id (sys_of M) \<and>
     (\<forall>h. ds_opt_adam (sys_of M) = Some h \<longrightarrow> ds_opt_adam (sys_of M') = Some h) \<and>
     (\<exists>E. events (sys_of M') = events (sys_of M) @ E \<and>
          (\<forall>ev\<in>set E. \<forall>q. pid_of ev = Some q \<longrightarrow>
              q \<in> set (map (snd \<circ> snd) es) \<and> grad (heap M q) \<noteq> None))"
proof (induction es arbitrary: M)
  case Nil
  then show ?case by simp
next
  case (Cons x es)
  obtain g i p where x: "x = (g, i, p)" by (cases x) auto
  from Cons.prems x obtain r1 M1 where
    sp: "step_param W jit kern g i p M = Some (r1, M1)"
    by (auto split: option.splits)
  note F = step_param_frame[OF sp]
  from step_param_events[OF sp] obtain E1 where
    E1: "events (sys_of M1) = events (sys_of M) @ E1"
    "\<forall>ev\<in>set E1. \<forall>q. pid_of ev = Some q \<longrightarrow> q = p \<and> grad (heap M p) \<noteq> None" by blast
  show ?case
  proof (cases r1)
    case (Some err)
    with Cons.prems x sp have M1: "M' = M1" by simp
    have "heap M' q = heap M q \<and> state (opt M') q = state (opt M) q"
      if "q \<notin> set (map (snd \<circ> snd) (x # es)) \<or> grad (heap M q) = None" for q
    proof -
      from that x have "q \<noteq> p \<or> grad (heap M q) = None" by auto
      from step_param_untouched[OF sp this] M1 show ?thesis by simp
    qed
    moreover have "\<forall>ev\<in>set E1. \<forall>q. pid_of ev = Some q \<longrightarrow>
              q \<in> set (map (snd \<circ> snd) (x # es)) \<and> grad (heap M q) \<noteq> None"
      using E1(2) x by auto
    moreover have "opt_id (opt M') = opt_id (opt M)" "param_groups (opt M') = param_groups (opt M)"
      "\<forall>q. grad (heap M' q) = grad (heap M q)"
      "fp16_param_groups M = None \<longrightarrow> fp16_param_groups M' = None"
      "optimizer_id (sys_of M') = optimizer_id (sys_of M)"
      "\<forall>h. ds_opt_adam (sys_of M) = Some h \<longrightarrow> ds_opt_adam (sys_of M') = Some h"
      using F M1 by simp_all
    ultimately show ?thesis using E1(1) M1 by blast
  next
    case None
    with Cons.prems x sp have rest: "step_entries W jit kern es M1 = Some (r, M')" by simp
    note IH = Cons.IH[OF rest]
    from IH obtain E2 where
      E2: "events (sys_of M') = events (sys_of M1) @ E2"
      "\<forall>ev\<in>set E2. \<forall>q. pid_of ev = Some q \<longrightarrow>
          q \<in> set (map (snd \<circ> snd) es) \<and> grad (heap M1 q) \<noteq> None" by blast
    have ev: "events (sys_of M') = events (sys_of M) @ (E1 @ E2)" using E1 E2 by simp
    have evp: "\<forall>ev\<in>set (E1 @ E2). \<forall>q. pid_of ev = Some q \<longrightarrow>
              q \<in> set (map (snd \<circ> snd) (x # es)) \<and> grad (heap M q) \<noteq> None"
      using E1(2) E2(2) F x by auto
    have fr: "heap M' q = heap M q \<and> state (opt M') q = state (opt M) q"
      if "q \<notin> set (map (snd \<circ> snd) (x # es)) \<or> grad (heap M q) = None" for q
    proof (cases "q = p")
      case True
      with that x have g: "grad (heap M p) = None" by auto
      with F have "M1 = M" by simp
      with IH g True show ?thesis by simp
    next
      case False
      with F have a: "heap M1 q = heap M q \<and> state (opt M1) q = state (opt M) q" by simp
      from that x F have "q \<notin> set (map (snd \<circ> snd) es) \<or> grad (heap M1 q) = None" by auto
      with IH have "heap M' q = heap M1 q \<and> state (opt M') q = state (opt M1) q" by blast
      with a show ?thesis by simp
    qed
    have "opt_id (opt M') = opt_id (opt M)" "param_groups (opt M') = param_groups (opt M)"
      "\<forall>q. grad (heap M' q) = grad (heap M q)"
      "fp16_param_groups M = None \<longrightarrow> fp16_param_groups M' = None"
      "optimizer_id (sys_of M') = optimizer_id (sys_of M)"
      "\<forall>h. ds_opt_adam (sys_of M) = Some h \<longrightarrow> ds_opt_adam (sys_of M') = Some h"
      using F IH by simp_all
    with fr ev evp show ?thesis by blast
  qed
qed

lemma step_entries_count:
  "step_entries W jit kern es M = Some (None, M') \<Longrightarrow>
   step_of (state (opt M') p) = step_of (state (opt M) p) +
     (if grad (heap M p) = None then 0 else int (count_list (map (snd \<circ> snd) es) p))"
proof (induction es arbitrary: M)
  case Nil
  then show ?case by simp
next
  case (Cons x es)
  obtain g i q where x: "x = (g, i, q)" by (cases x) auto
  from Cons.prems x obtain M1 where
    sp: "step_param W jit kern g i q M = Some (None, M1)"
    and rest: "step_entries W jit kern es M1 = Some (None, M')"
    by (auto split: option.splits prod.splits)
  note F = step_param_frame[OF sp]
  note IH = Cons.IH[OF rest]
  have gr: "grad (heap M1 p) = grad (heap M p)" using F by simp
  show ?case
  proof (cases "q = p")
    case True
    with F have "step_of (state (opt M1) p) = step_of (state (opt M) p) +
        (if grad (heap M p) = None then 0 else 1)" by auto
    with IH gr True x show ?thesis by simp
  next
    case False
    with F have "state (opt M1) p = state (opt M) p" by simp
    with IH gr False x show ?thesis by simp
  qed
qed



lemma map_snd_enumerate_id: "map snd (enumerate n xs) = xs"
  by (induction xs arbitrary: n) simp_all

lemma pids_group_entries: "map (snd \<circ> snd) (group_entries g ps) = ps"
proof -
  have "map (snd \<circ> snd) (group_entries g ps) = map snd (enumerate 0 ps)"
    by (simp add: group_entries_def comp_def case_prod_beta)
  then show ?thesis by (simp add: map_snd_enumerate_id)
qed

lemma pids_entries_from:
  "map (snd \<circ> snd) (concat (map (\<lambda>(g, G). group_entries g (params G)) (enumerate n gs)))
     = concat (map params gs)"
proof (induction gs arbitrary: n)
  case Nil
  show ?case by simp
next
  case (Cons G gs)
  show ?case using Cons.IH[of "Suc n"] pids_group_entries[of n "params G"]
    by (simp add: comp_def)
qed

lemma pids_entries: "map (snd \<circ> snd) (entries gs) = concat (map params gs)"
  by (simp add: entries_def pids_entries_from)

lemma enter_fields:
  "opt (snd (enter cl fp M)) = opt M"
  "sys_of (snd (enter cl fp M)) = sys_of M"
  "fp16_param_groups (snd (enter cl fp M)) = fp"
  "cl = None \<Longrightarrow> heap (snd (enter cl fp M)) = heap M"
  by (simp_all add: enter_def Let_def split: option.splits prod.splits sum.splits)

lemma step_cases:
  assumes "step W jit kern cl fp M = Some (r, M')"
  obtains (closure_raised) err where "fst (enter cl fp M) = Inl err" "r = Inl err"
      "M' = snd (enter cl fp M)"
  | (loop) loss r1 where "fst (enter cl fp M) = Inr loss"
      "step_entries W jit kern (entries (param_groups (opt M))) (snd (enter cl fp M)) = Some (r1, M')"
      "r = (case r1 of Some err \<Rightarrow> Inl err | None \<Rightarrow> Inr loss)"
proof (cases "fst (enter cl fp M)")
  case (Inl err)
  then obtain M0 where e: "enter cl fp M = (Inl err, M0)" by (cases "enter cl fp M") simp
  with assms have "r = Inl err" "M' = M0"
    by (simp_all add: step_def)
  with Inl e show ?thesis by (intro closure_raised) simp_all
next
  case (Inr loss)
  then obtain M0 where e: "enter cl fp M = (Inr loss, M0)" by (cases "enter cl fp M") simp
  then have M0: "M0 = snd (enter cl fp M)" by simp
  have o: "opt M0 = opt M" unfolding M0 by (simp add: enter_fields)
  from assms e obtain r1 where
    "step_entries W jit kern (entries (param_groups (opt M))) M0 = Some (r1, M')"
    "r = (case r1 of Some err \<Rightarrow> Inl err | None \<Rightarrow> Inr loss)"
    by (auto simp: step_def step_groups_entries o split: option.splits prod.splits)
  with Inr M0 show ?thesis by (intro loop) simp_all
qed

lemma step_frame:
  assumes "step W jit kern cl fp M = Some (r, M')"
  shows "opt_id (opt M') = opt_id (opt M) \<and>
     param_groups (opt M') = param_groups (opt M) \<and>
     optimizer_id (sys_of M') = optimizer_id (sys_of M) \<and>
     (\<forall>h. ds_opt_adam (sys_of M) = Some h \<longrightarrow> ds_opt_adam (sys_of M') = Some h) \<and>
     (fp = None \<longrightarrow> fp16_param_groups M' = None) \<and>
     (\<forall>q. grad (heap (snd (enter cl fp M)) q) = None \<longrightarrow>
          state (opt M') q = state (opt M) q \<and>
          heap M' q = heap (snd (enter cl fp M)) q) \<and>
     (\<exists>E. events (sys_of M') = events (sys_of M) @ E \<and>
          (\<forall>ev\<in>set E. \<forall>q. pid_of ev = Some q \<longrightarrow>
               grad (heap (snd (enter cl fp M)) q) \<noteq> None))"
  using assms
proof (cases rule: step_cases)
  case (closure_raised err)
  then show ?thesis by (simp add: enter_fields)
next
  case (loop loss r1)
  note F = step_entries_frame[OF loop(2)]
  from F obtain E where E: "events (sys_of M') = events (sys_of M) @ E"
    "\<forall>ev\<in>set E. \<forall>q. pid_of ev = Some q \<longrightarrow> grad (heap (snd (enter cl fp M)) q) \<noteq> None"
    by (auto simp: enter_fields)
  have "\<forall>q. grad (heap (snd (enter cl fp M)) q) = None \<longrightarrow>
          state (opt M') q = state (opt M) q \<and> heap M' q = heap (snd (enter cl fp M)) q"
    using F by (simp add: enter_fields)
  moreover have "opt_id (opt M') = opt_id (opt M)" "param_groups (opt M') = param_groups (opt M)"
     "optimizer_id (sys_of M') = optimizer_id (sys_of M)"
     "\<forall>h. ds_opt_adam (sys_of M) = Some h \<longrightarrow> ds_opt_adam (sys_of M') = Some h"
     "fp = None \<longrightarrow> fp16_param_groups M' = None"
    using F by (simp_all add: enter_fields)
  ultimately show ?thesis using E by blast
qed

lemma step_count:
  assumes "step W jit kern cl fp M = Some (Inr loss, M')"
  shows "step_at p M' = step_at p M +
     (if grad (heap (snd (enter cl fp M)) p) = None then 0
      else int (count_list (concat (map params (param_groups (opt M)))) p))"
  using assms
proof (cases rule: step_cases)
  case (closure_raised err)
  then show ?thesis by simp
next
  case (loop loss' r1)
  from loop(3) have "r1 = None" by (cases r1) simp_all
  with loop(2) have "step_entries W jit kern (entries (param_groups (opt M)))
      (snd (enter cl fp M)) = Some (None, M')" by simp
  from step_entries_count[OF this, of p] show ?thesis
    by (simp add: step_at_def enter_fields pids_entries)
qed

lemma steps_count:
  "steps W jit kern cs M = Some (Inr ls, M') \<Longrightarrow>
   param_groups (opt M') = param_groups (opt M) \<and>
   step_at p M' = step_at p M +
     int (count_list (concat (map params (param_groups (opt M)))) p) *
     int (grad_calls W jit kern p cs M)"
proof (induction cs arbitrary: M ls)
  case Nil
  then show ?case by simp
next
  case (Cons c cs)
  obtain pre cl fp where c: "c = (pre, cl, fp)" by (cases c) auto
  let ?M = "M\<lparr>heap := pre (heap M)\<rparr>"
  from Cons.prems c obtain loss M1 ls1 where
    s1: "step W jit kern cl fp ?M = Some (Inr loss, M1)"
    and rest: "steps W jit kern cs M1 = Some (Inr ls1, M')"
    by (auto split: option.splits prod.splits sum.splits)
  note IH = Cons.IH[OF rest]
  note F = step_frame[OF s1]
  have pg: "param_groups (opt M1) = param_groups (opt M)" using F by simp
  have c1: "step_at p M1 = step_at p M +
     (if grad (heap (snd (enter cl fp ?M)) p) = None then 0
      else int (count_list (concat (map params (param_groups (opt M)))) p))"
    using step_count[OF s1, of p] by (simp add: step_at_def)
  have gc: "grad_calls W jit kern p (c # cs) M =
      (if grad (heap (snd (enter cl fp ?M)) p) = None then 0 else 1)
        + grad_calls W jit kern p cs M1"
    using s1 c by simp
  show ?case
    using IH pg c1 unfolding gc by (simp add: algebra_simps)
qed


subsection \<open>Step counters\<close>


text \<open>
  Claim C2, as the code has it. Over a run of \<^verbatim>\<open>step\<close> calls that all return
  normally, the step counter of \<open>p\<close> grows by the number of calls in which
  \<open>p\<close> carried a gradient when the loop began, times the number of places at which
  \<open>p\<close> is listed in the parameter groups (one for a parameter listed once). In
  any call in which \<open>p\<close> carries no gradient, returning or raising, the state entry
  of \<open>p\<close> is left as it was (none is created, no counter is raised) and no kernel
  call of that call is made for \<open>p\<close>.
\<close>

theorem step_counter_counts_grad_calls:
  assumes "steps W jit kern cs M = Some (Inr ls, M')"
  shows "step_at p M' = step_at p M +
           int (count_list (concat (map params (param_groups (opt M)))) p) *
           int (grad_calls W jit kern p cs M) \<and>
         (\<forall>cl fp N r N'. step W jit kern cl fp N = Some (r, N') \<longrightarrow>
              grad (heap (snd (enter cl fp N)) p) = None \<longrightarrow>
              state (opt N') p = state (opt N) p \<and>
              (\<exists>E. events (sys_of N') = events (sys_of N) @ E \<and>
                   (\<forall>ev\<in>set E. pid_of ev \<noteq> Some p)))"
proof -
  have "state (opt N') p = state (opt N) p \<and>
        (\<exists>E. events (sys_of N') = events (sys_of N) @ E \<and> (\<forall>ev\<in>set E. pid_of ev \<noteq> Some p))"
    if s: "step W jit kern cl fp N = Some (r, N')"
      and g: "grad (heap (snd (enter cl fp N)) p) = None" for cl fp N r N'
  proof -
    note F = step_frame[OF s]
    from F obtain E where E: "events (sys_of N') = events (sys_of N) @ E"
      "\<forall>ev\<in>set E. \<forall>q. pid_of ev = Some q \<longrightarrow> grad (heap (snd (enter cl fp N)) q) \<noteq> None"
      by blast
    from E(2) g have "\<forall>ev\<in>set E. pid_of ev \<noteq> Some p" by blast
    with E(1) F g show ?thesis by blast
  qed
  with steps_count[OF assms, of p] show ?thesis by blast
qed

lemmas mem_ops = step_def enter_def step_param_def track_def dispatch_def
  call_adam_update_def call_adam_update_copy_def log_def set_state_def set_data_def
  set_kstate_def fresh_state_def zeros_like_cpu_def numel_def emit_def load_op_def

lemmas adam_ops = spec_kernel_def spec_update_def spec_update_copy_def adam_m_def adam_v_def

lemma ready_slot: "ds_opt_adam ready_sys = Some 7"
  by (simp add: ready_sys_def cached_sys_def touch_done_def touch_started_def emit_def)

lemma ready_kstate: "kstate ready_sys = [0 \<mapsto> adam_defaults]"
  by (simp add: ready_sys_def)

lemmas ex_defs = mem0_def opt0_def heap0_def vec_def default_group_def
  ready_slot ready_kstate adam_defaults_def step_at_def step_of_def Let_def enumerate_eq_zip
  drop_grad_def

text \<open>
  The claim as the specification words it (the counter equals the number of calls in
  which the parameter carried a gradient, for every parameter and every sequence of
  calls) fails in two ways. A parameter listed twice in a group is counted twice by a
  single call. And a call that raises ends the loop: with shadow groups that are too
  short, \<^verbatim>\<open>fp16_param_groups[0][0]\<close> raises at the first parameter, and the
  second one, which carries a gradient, is never reached.
\<close>

theorem step_counter_counterexample:
  "step_at 0 (mem0 [[0, 0]]) = 0 \<and>
   map_option fst (step quiet (jit_ok 7) spec_kernel None None (mem0 [[0, 0]]))
     = Some (Inr None) \<and>
   map_option (step_at 0 \<circ> snd) (step quiet (jit_ok 7) spec_kernel None None (mem0 [[0, 0]]))
     = Some 2 \<and>
   grad (heap0 1) \<noteq> None \<and>
   map_option fst (step quiet (jit_ok 7) spec_kernel None (Some [[]]) (mem0 [[0, 1]]))
     = Some (Inl IndexError) \<and>
   map_option (step_at 1 \<circ> snd)
     (step quiet (jit_ok 7) spec_kernel None (Some [[]]) (mem0 [[0, 1]])) = Some 0"
  by (simp add: mem_ops adam_ops ex_defs)

theorem step_counter_counts_grad_calls_witness:
  "map_option fst
     (steps quiet (jit_ok 7) spec_kernel [(id, None, None), (drop_grad 0, None, None)]
        (mem0 [[0, 1]])) = Some (Inr [None, None]) \<and>
   count_list (concat (map params (param_groups (opt (mem0 [[0, 1]]))))) 0 = 1 \<and>
   grad_calls quiet (jit_ok 7) spec_kernel 0 [(id, None, None), (drop_grad 0, None, None)]
        (mem0 [[0, 1]]) = 1 \<and>
   grad_calls quiet (jit_ok 7) spec_kernel 1 [(id, None, None), (drop_grad 0, None, None)]
        (mem0 [[0, 1]]) = 2 \<and>
   map_option (step_at 0 \<circ> snd)
     (steps quiet (jit_ok 7) spec_kernel [(id, None, None), (drop_grad 0, None, None)]
        (mem0 [[0, 1]])) = Some 1 \<and>
   map_option (step_at 1 \<circ> snd)
     (steps quiet (jit_ok 7) spec_kernel [(id, None, None), (drop_grad 0, None, None)]
        (mem0 [[0, 1]])) = Some 2"
proof -
  let ?cs = "[(id, None, None), (drop_grad 0, None, None)] :: real call list"
  let ?run = "steps quiet (jit_ok 7) spec_kernel ?cs (mem0 [[0, 1]])"
  have r: "map_option fst ?run = Some (Inr [None, None])"
    by (simp add: mem_ops adam_ops ex_defs split: option.splits)
  then obtain M' where run: "?run = Some (Inr [None, None], M')" by auto
  have c: "count_list (concat (map params (param_groups (opt (mem0 [[0, 1]]))))) 0 = 1"
    "count_list (concat (map params (param_groups (opt (mem0 [[0, 1]]))))) 1 = 1"
    by (simp_all add: ex_defs)
  have g0: "grad_calls quiet (jit_ok 7) spec_kernel 0 ?cs (mem0 [[0, 1]]) = 1"
    by (simp add: mem_ops adam_ops ex_defs)
  have g1: "grad_calls quiet (jit_ok 7) spec_kernel 1 ?cs (mem0 [[0, 1]]) = 2"
    by (simp add: mem_ops adam_ops ex_defs)
  have z: "step_at 0 (mem0 [[0, 1]]) = 0" "step_at 1 (mem0 [[0, 1]]) = 0"
    by (simp_all add: ex_defs)
  from step_counter_counts_grad_calls[OF run, of 0] c g0 z have "step_at 0 M' = 1" by simp
  moreover from step_counter_counts_grad_calls[OF run, of 1] c g1 z have "step_at 1 M' = 2"
    by simp
  ultimately show ?thesis using r c(1) g0 g1 run by simp
qed


subsection \<open>State entries and their buffers\<close>


lemma track_sys_slot:
  "ds_opt_adam (sys_of (snd (track g i p M))) = ds_opt_adam (sys_of M)"
  "kstate (sys_of (snd (track g i p M))) = kstate (sys_of M)"
  by (simp_all add: track_def Let_def mem_simps emit_simps split: option.splits)

lemma step_param_loaded:
  assumes "ds_opt_adam (sys_of M) = Some h" and "grad (heap M p) = Some gr"
  shows "step_param W jit kern g i p M =
     Some (dispatch kern h g i p gr (fst (track g i p M)) (snd (track g i p M)))"
proof -
  obtain ps1 M2 where t: "track g i p M = (ps1, M2)" by (cases "track g i p M")
  have "ds_opt_adam (sys_of M2) = Some h"
    using track_sys_slot(1)[of g i p M] t assms(1) by simp
  then have "load_op W jit (sys_of M2) = Some (Inr h, sys_of M2)" by (rule load_op_cached)
  with assms(2) t show ?thesis by (simp add: step_param_def)
qed






subsection \<open>The kernel calls of \<^verbatim>\<open>step\<close>\<close>


lemma update_calls_append: "update_calls (xs @ ys) = update_calls xs @ update_calls ys"
  by (simp add: update_calls_def)

lemma track_update_calls:
  "update_calls (events (sys_of (snd (track g i p M)))) = update_calls (events (sys_of M))"
  by (simp add: track_def Let_def mem_simps emit_simps update_calls_def split: option.splits)

lemma track_keeps:
  "heap (snd (track g i p M)) = heap M"
  "opt_id (opt (snd (track g i p M))) = opt_id (opt M)"
  "fp16_param_groups (snd (track g i p M)) = fp16_param_groups M"
  by (simp_all add: track_def Let_def mem_simps split: option.splits)

lemma step_param_call:
  assumes "grad (heap M p) = Some gr"
    and "load_op W jit (sys_of (snd (track g i p M))) = Some (Inr h, s)"
  shows "step_param W jit kern g i p M =
     Some (dispatch kern h g i p gr (fst (track g i p M)) ((snd (track g i p M))\<lparr>sys_of := s\<rparr>))"
proof -
  obtain ps1 M2 where t: "track g i p M = (ps1, M2)" by (cases "track g i p M")
  with assms show ?thesis by (simp add: step_param_def)
qed

lemma loaded_keeps:
  assumes "load_op W jit (sys_of (snd (track g i p M))) = Some (r, s)"
  shows "kstate s = kstate (sys_of M)"
    and "update_calls (events s) = update_calls (events (sys_of M))"
proof -
  from load_op_Some[OF assms] show "kstate s = kstate (sys_of M)"
    by (simp add: track_sys_slot)
  from load_op_events[OF assms] obtain E where
    E: "events s = events (sys_of (snd (track g i p M))) @ E" "\<forall>ev\<in>set E. pid_of ev = None"
    by blast
  have "\<not> is_update ev" if "pid_of ev = None" for ev :: "'a event"
    using that by (cases ev) simp_all
  with E(2) have "filter is_update E = []" by simp
  with E(1) show "update_calls (events s) = update_calls (events (sys_of M))"
    using track_update_calls[of g i p M] by (simp add: update_calls_def)
qed

lemma step_param_plain:
  assumes "grad (heap M p) = Some gr"
    and "load_op W jit (sys_of (snd (track g i p M))) = Some (Inr h, s)"
    and "fp16_param_groups M = None"
  shows "\<exists>M'. step_param W jit kern g i p M =
      Some (k_raised (adam_update (kern h) (kstate (sys_of M)) (opt_id (opt M))
              (data (heap M p)) gr (exp_avg (fst (track g i p M)))
              (exp_avg_sq (fst (track g i p M)))), M') \<and>
     update_calls (events (sys_of M')) = update_calls (events (sys_of M)) @
       [AdamUpdate h (opt_id (opt M)) p (data (heap M p)) gr
          (exp_avg (fst (track g i p M))) (exp_avg_sq (fst (track g i p M)))] \<and>
     fp16_param_groups M' = None"
proof -
  let ?ps = "fst (track g i p M)" and ?M2 = "(snd (track g i p M))\<lparr>sys_of := s\<rparr>"
  note K = loaded_keeps[OF assms(2)]
  have d: "dispatch kern h g i p gr ?ps ?M2 = call_adam_update kern h p gr ?ps ?M2"
    using assms(3) by (simp add: dispatch_def track_keeps)
  obtain e M' where c: "call_adam_update kern h p gr ?ps ?M2 = (e, M')"
    by (cases "call_adam_update kern h p gr ?ps ?M2")
  have e: "e = k_raised (adam_update (kern h) (kstate (sys_of M)) (opt_id (opt M))
              (data (heap M p)) gr (exp_avg ?ps) (exp_avg_sq ?ps))"
    using c by (simp add: call_adam_update_def Let_def mem_simps emit_simps track_keeps K)
  note C = call_adam_update_fields[OF c]
  have "update_calls (events (sys_of M')) = update_calls (events (sys_of M)) @
       [AdamUpdate h (opt_id (opt M)) p (data (heap M p)) gr (exp_avg ?ps) (exp_avg_sq ?ps)]"
    using C by (simp add: update_calls_append K track_keeps)
       (simp add: update_calls_def)
  moreover have "fp16_param_groups M' = None" using C assms(3) by (simp add: track_keeps)
  ultimately show ?thesis
    using step_param_call[OF assms(1,2), of kern] d c e by simp
qed

lemma step_param_copy:
  assumes "grad (heap M p) = Some gr"
    and "load_op W jit (sys_of (snd (track g i p M))) = Some (Inr h, s)"
    and "fp16_param_groups M = Some F" and "g < length F" and "i < length (F ! g)"
  shows "\<exists>M'. step_param W jit kern g i p M =
      Some (k_raised (adam_update_copy (kern h) (kstate (sys_of M)) (opt_id (opt M))
              (data (heap M p)) gr (exp_avg (fst (track g i p M)))
              (exp_avg_sq (fst (track g i p M))) (F ! g ! i)), M') \<and>
     update_calls (events (sys_of M')) = update_calls (events (sys_of M)) @
       [AdamUpdateCopy h (opt_id (opt M)) p (data (heap M p)) gr
          (exp_avg (fst (track g i p M))) (exp_avg_sq (fst (track g i p M)))
          (g, i) (F ! g ! i)] \<and>
     fp16_param_groups M' =
       Some (F[g := (F ! g)[i := k_shadow (adam_update_copy (kern h) (kstate (sys_of M))
              (opt_id (opt M)) (data (heap M p)) gr (exp_avg (fst (track g i p M)))
              (exp_avg_sq (fst (track g i p M))) (F ! g ! i))]])"
proof -
  let ?ps = "fst (track g i p M)" and ?M2 = "(snd (track g i p M))\<lparr>sys_of := s\<rparr>"
  note K = loaded_keeps[OF assms(2)]
  have d: "dispatch kern h g i p gr ?ps ?M2 = call_adam_update_copy kern h p gr ?ps F g i ?M2"
    using assms(3-5) by (simp add: dispatch_def track_keeps)
  obtain e M' where c: "call_adam_update_copy kern h p gr ?ps F g i ?M2 = (e, M')"
    by (cases "call_adam_update_copy kern h p gr ?ps F g i ?M2")
  have ee: "e = fst (call_adam_update_copy kern h p gr ?ps F g i ?M2)"
    and mm: "M' = snd (call_adam_update_copy kern h p gr ?ps F g i ?M2)"
    using c by simp_all
  have e: "e = k_raised (adam_update_copy (kern h) (kstate (sys_of M)) (opt_id (opt M))
              (data (heap M p)) gr (exp_avg ?ps) (exp_avg_sq ?ps) (F ! g ! i))"
    unfolding ee
    by (simp add: call_adam_update_copy_def Let_def mem_simps emit_simps track_keeps K)
  have f: "fp16_param_groups M' =
       Some (F[g := (F ! g)[i := k_shadow (adam_update_copy (kern h) (kstate (sys_of M))
              (opt_id (opt M)) (data (heap M p)) gr (exp_avg ?ps) (exp_avg_sq ?ps) (F ! g ! i))]])"
    unfolding mm
    by (simp add: call_adam_update_copy_def Let_def mem_simps emit_simps track_keeps K)
  note C = call_adam_update_copy_fields[OF c]
  have "update_calls (events (sys_of M')) = update_calls (events (sys_of M)) @
       [AdamUpdateCopy h (opt_id (opt M)) p (data (heap M p)) gr (exp_avg ?ps) (exp_avg_sq ?ps)
          (g, i) (F ! g ! i)]"
    using C by (simp add: update_calls_append K track_keeps)
       (simp add: update_calls_def)
  then show ?thesis
    using step_param_call[OF assms(1,2), of kern] d c e f by simp
qed

lemma step_param_index:
  assumes "grad (heap M p) = Some gr"
    and "load_op W jit (sys_of (snd (track g i p M))) = Some (Inr h, s)"
    and "fp16_param_groups M = Some F" and "\<not> (g < length F \<and> i < length (F ! g))"
  shows "\<exists>M'. step_param W jit kern g i p M = Some (Some IndexError, M') \<and>
     update_calls (events (sys_of M')) = update_calls (events (sys_of M)) \<and>
     step_at p M' = step_at p M + 1 \<and>
     fp16_param_groups M' = Some F"
proof -
  let ?ps = "fst (track g i p M)" and ?M2 = "(snd (track g i p M))\<lparr>sys_of := s\<rparr>"
  note K = loaded_keeps[OF assms(2)]
  have d: "dispatch kern h g i p gr ?ps ?M2 = (Some IndexError, ?M2)"
    using assms(3,4) by (cases "g < length F") (simp_all add: dispatch_def track_keeps)
  obtain ps1 M2 where t: "track g i p M = (ps1, M2)" by (cases "track g i p M")
  from track_fields(1,2)[OF t] have "step_at p ?M2 = step_at p M + 1"
    by (simp add: step_at_def t step_of_def)
  then show ?thesis
    using step_param_call[OF assms(1,2), of kern] d K assms(3) by (simp add: track_keeps)
qed

lemma load_op_tracked:
  "ds_opt_adam (sys_of M) = Some h \<Longrightarrow>
   load_op W jit (sys_of (snd (track g i p M))) = Some (Inr h, sys_of (snd (track g i p M)))"
  by (rule load_op_cached) (simp add: track_sys_slot)

lemma sig_of_no_handle: "handle_of ev = None \<Longrightarrow> sig_of ev = None"
  by (cases ev) simp_all

lemma map_filter_append: "List.map_filter f (xs @ ys) = List.map_filter f xs @ List.map_filter f ys"
  by (simp add: List.map_filter_def)

lemma map_filter_none: "\<forall>x\<in>set xs. f x = None \<Longrightarrow> List.map_filter f xs = []"
  by (induction xs) (simp_all add: List.map_filter_def)




lemma step_param_sig:
  assumes "step_param W jit kern g i p M = Some (None, M')"
  shows "\<exists>E. events (sys_of M') = events (sys_of M) @ E \<and>
       List.map_filter sig_of E =
         (if grad (heap M p) = None then [] else [expected_sig (fp16_param_groups M) (g, i, p)]) \<and>
       (fp16_param_groups M' = None \<longleftrightarrow> fp16_param_groups M = None)"
  using assms
proof (cases rule: step_param_cases)
  case skip
  then show ?thesis by (simp add: List.map_filter_def)
next
  case (load_fail gr ps1 M2 err s)
  then show ?thesis by simp
next
  case (call gr ps1 M2 h s)
  from track_events[OF call(2)] obtain E1 where
    E1: "events (sys_of M2) = events (sys_of M) @ E1" "\<forall>ev\<in>set E1. handle_of ev = None" by blast
  from load_op_events[OF call(3)] obtain E2 where
    E2: "events s = events (sys_of M2) @ E2" "\<forall>ev\<in>set E2. handle_of ev = None" by blast
  have n: "List.map_filter sig_of (E1 @ E2) = []"
    using E1(2) E2(2) by (intro map_filter_none) (auto simp: sig_of_no_handle)
  let ?N = "M2\<lparr>sys_of := s\<rparr>"
  have fpN: "fp16_param_groups ?N = fp16_param_groups M"
    using track_fields(6)[OF call(2)] by simp
  have "(\<exists>ev. events (sys_of M') = events s @ [ev] \<and>
          sig_of ev = Some (expected_sig (fp16_param_groups M) (g, i, p))) \<and>
          (fp16_param_groups M' = None \<longleftrightarrow> fp16_param_groups M = None)"
  proof -
    consider (copy) F where "fp16_param_groups ?N = Some F"
        "call_adam_update_copy kern h p gr ps1 F g i ?N = (None, M')"
      | (plain) "fp16_param_groups ?N = None" "call_adam_update kern h p gr ps1 ?N = (None, M')"
      using call(4) by (auto simp: dispatch_def split: option.splits if_splits)
    then show ?thesis
    proof cases
      case copy
      note C = call_adam_update_copy_fields[OF copy(2)]
      have "M' = snd (call_adam_update_copy kern h p gr ps1 F g i ?N)" using copy(2) by simp
      then have t: "fp16_param_groups M' \<noteq> None"
        by (simp add: call_adam_update_copy_def Let_def)
      from C have e: "events (sys_of M') = events s @
           [AdamUpdateCopy h (opt_id (opt ?N)) p (data (heap ?N p)) gr (exp_avg ps1)
              (exp_avg_sq ps1) (g, i) (F ! g ! i)]" by simp
      have f: "fp16_param_groups M = Some F" using copy(1) fpN by simp
      have "\<exists>ev. events (sys_of M') = events s @ [ev] \<and>
          sig_of ev = Some (expected_sig (fp16_param_groups M) (g, i, p))"
        by (rule exI[of _ "AdamUpdateCopy h (opt_id (opt ?N)) p (data (heap ?N p)) gr
              (exp_avg ps1) (exp_avg_sq ps1) (g, i) (F ! g ! i)"])
           (simp add: e f expected_sig_def)
      then show ?thesis using t f by simp
    next
      case plain
      note C = call_adam_update_fields[OF plain(2)]
      from C have e: "events (sys_of M') = events s @
           [AdamUpdate h (opt_id (opt ?N)) p (data (heap ?N p)) gr (exp_avg ps1)
              (exp_avg_sq ps1)]" by simp
      from C have t: "fp16_param_groups M' = None" using plain(1) by simp
      have f: "fp16_param_groups M = None" using plain(1) fpN by simp
      have "\<exists>ev. events (sys_of M') = events s @ [ev] \<and>
          sig_of ev = Some (expected_sig (fp16_param_groups M) (g, i, p))"
        by (rule exI[of _ "AdamUpdate h (opt_id (opt ?N)) p (data (heap ?N p)) gr
              (exp_avg ps1) (exp_avg_sq ps1)"])
           (simp add: e f expected_sig_def)
      then show ?thesis using t f by simp
    qed
  qed
  then have ev3: "fp16_param_groups M' = None \<longleftrightarrow> fp16_param_groups M = None"
    and ex: "\<exists>ev. events (sys_of M') = events s @ [ev] \<and>
          sig_of ev = Some (expected_sig (fp16_param_groups M) (g, i, p))"
    by simp_all
  from ex obtain ev where ev: "events (sys_of M') = events s @ [ev]"
    "sig_of ev = Some (expected_sig (fp16_param_groups M) (g, i, p))" by (elim exE conjE)
  have "events (sys_of M') = events (sys_of M) @ ((E1 @ E2) @ [ev])" using E1 E2 ev by simp
  moreover have "List.map_filter sig_of ((E1 @ E2) @ [ev]) =
      [expected_sig (fp16_param_groups M) (g, i, p)]"
  proof -
    have "List.map_filter sig_of [ev] = [expected_sig (fp16_param_groups M) (g, i, p)]"
      using ev(2) by (simp add: List.map_filter_def)
    with n show ?thesis
      by (simp only: map_filter_append[of sig_of "E1 @ E2" "[ev]"] append_Nil)
  qed
  ultimately show ?thesis using ev3 call(1) by (intro exI[of _ "(E1 @ E2) @ [ev]"]) simp
qed




lemma expected_sig_cong:
  "(a = None \<longleftrightarrow> b = None) \<Longrightarrow> expected_sig a = expected_sig b"
  by (cases a; cases b) (simp_all add: expected_sig_def fun_eq_iff)

lemma step_entries_sigs:
  "step_entries W jit kern es M = Some (None, M') \<Longrightarrow>
   \<exists>E. events (sys_of M') = events (sys_of M) @ E \<and>
       List.map_filter sig_of E =
         map (expected_sig (fp16_param_groups M))
           (filter (\<lambda>e. grad (heap M (snd (snd e))) \<noteq> None) es)"
proof (induction es arbitrary: M)
  case Nil
  then show ?case by (simp add: List.map_filter_def)
next
  case (Cons x es)
  obtain g i p where x: "x = (g, i, p)" by (cases x) auto
  from Cons.prems x obtain M1 where
    sp: "step_param W jit kern g i p M = Some (None, M1)"
    and rest: "step_entries W jit kern es M1 = Some (None, M')"
    by (auto split: option.splits prod.splits)
  from step_param_sig[OF sp] obtain E1 where
    "events (sys_of M1) = events (sys_of M) @ E1 \<and>
     List.map_filter sig_of E1 =
       (if grad (heap M p) = None then [] else [expected_sig (fp16_param_groups M) (g, i, p)]) \<and>
     (fp16_param_groups M1 = None \<longleftrightarrow> fp16_param_groups M = None)" ..
  then have E1: "events (sys_of M1) = events (sys_of M) @ E1"
    "List.map_filter sig_of E1 =
       (if grad (heap M p) = None then [] else [expected_sig (fp16_param_groups M) (g, i, p)])"
    "fp16_param_groups M1 = None \<longleftrightarrow> fp16_param_groups M = None" by simp_all
  from Cons.IH[OF rest] obtain E2 where
    "events (sys_of M') = events (sys_of M1) @ E2 \<and>
     List.map_filter sig_of E2 =
       map (expected_sig (fp16_param_groups M1))
         (filter (\<lambda>e. grad (heap M1 (snd (snd e))) \<noteq> None) es)" ..
  then have E2: "events (sys_of M') = events (sys_of M1) @ E2"
    "List.map_filter sig_of E2 =
       map (expected_sig (fp16_param_groups M1))
         (filter (\<lambda>e. grad (heap M1 (snd (snd e))) \<noteq> None) es)" by simp_all
  have gr: "grad (heap M1 q) = grad (heap M q)" for q
    using step_param_frame[OF sp] by simp
  have es: "expected_sig (fp16_param_groups M1) = expected_sig (fp16_param_groups M)"
    using E1(3) by (rule expected_sig_cong)
  have "events (sys_of M') = events (sys_of M) @ (E1 @ E2)" using E1 E2 by simp
  moreover have "List.map_filter sig_of (E1 @ E2) =
      map (expected_sig (fp16_param_groups M))
        (filter (\<lambda>e. grad (heap M (snd (snd e))) \<noteq> None) (x # es))"
    by (simp only: map_filter_append[of sig_of E1 E2] E1(2) E2(2) es) (simp add: gr x)
  ultimately show ?case by (intro exI[of _ "E1 @ E2"] conjI)
qed

lemma step_sigs:
  assumes "step W jit kern cl fp M = Some (Inr loss, M')"
  shows "\<exists>E. events (sys_of M') = events (sys_of M) @ E \<and>
       List.map_filter sig_of E =
         map (expected_sig fp)
           (filter (\<lambda>e. grad (heap (snd (enter cl fp M)) (snd (snd e))) \<noteq> None)
              (entries (param_groups (opt M))))"
  using assms
proof (cases rule: step_cases)
  case (closure_raised err)
  then show ?thesis by simp
next
  case (loop loss' r1)
  from loop(3) have "r1 = None" by (cases r1) simp_all
  with loop(2) have "step_entries W jit kern (entries (param_groups (opt M)))
      (snd (enter cl fp M)) = Some (None, M')" by simp
  from step_entries_sigs[OF this] show ?thesis by (simp add: enter_fields)
qed


text \<open>
  Claim C7. Take a parameter with a gradient, in an iteration whose \<^verbatim>\<open>load_op\<close>
  returns the module \<open>h\<close>; it does, and leaves the process as it is, whenever the
  class slot holds \<open>h\<close>. If shadow groups are supplied and hold a tensor at the
  group index and parameter index of the parameter, the iteration makes exactly one
  kernel update call, \<^verbatim>\<open>adam_update_copy\<close>, with that tensor as its last argument,
  and what the call wrote to the shadow tensor is in that slot of the groups afterwards.
  If shadow groups are supplied and hold nothing at that position, the iteration raises
  \<^verbatim>\<open>IndexError\<close> after it has raised the step counter of the parameter, and makes
  no kernel update call. If no shadow groups are supplied, it makes exactly one call,
  \<^verbatim>\<open>adam_update\<close>, and there are no shadow groups afterwards. Over a whole call of
  \<^verbatim>\<open>step\<close> that returns, the kernel update calls are, in order, one per listed
  parameter that carried a gradient: all with a copy and the shadow position of the
  parameter if shadow groups were supplied, all plain otherwise.
\<close>

theorem update_call_per_parameter:
  "(\<forall>h s gr. grad (heap M p) = Some gr \<longrightarrow>
      load_op W jit (sys_of (snd (track g i p M))) = Some (Inr h, s) \<longrightarrow>
      (\<forall>F. fp16_param_groups M = Some F \<longrightarrow> g < length F \<longrightarrow> i < length (F ! g) \<longrightarrow>
         (\<exists>M'. step_param W jit kern g i p M =
              Some (k_raised (adam_update_copy (kern h) (kstate (sys_of M)) (opt_id (opt M))
                      (data (heap M p)) gr (exp_avg (fst (track g i p M)))
                      (exp_avg_sq (fst (track g i p M))) (F ! g ! i)), M') \<and>
            update_calls (events (sys_of M')) = update_calls (events (sys_of M)) @
              [AdamUpdateCopy h (opt_id (opt M)) p (data (heap M p)) gr
                 (exp_avg (fst (track g i p M))) (exp_avg_sq (fst (track g i p M)))
                 (g, i) (F ! g ! i)] \<and>
            fp16_param_groups M' =
              Some (F[g := (F ! g)[i := k_shadow (adam_update_copy (kern h) (kstate (sys_of M))
                     (opt_id (opt M)) (data (heap M p)) gr (exp_avg (fst (track g i p M)))
                     (exp_avg_sq (fst (track g i p M))) (F ! g ! i))]]))) \<and>
      (\<forall>F. fp16_param_groups M = Some F \<longrightarrow> \<not> (g < length F \<and> i < length (F ! g)) \<longrightarrow>
         (\<exists>M'. step_param W jit kern g i p M = Some (Some IndexError, M') \<and>
            update_calls (events (sys_of M')) = update_calls (events (sys_of M)) \<and>
            step_at p M' = step_at p M + 1 \<and>
            fp16_param_groups M' = Some F)) \<and>
      (fp16_param_groups M = None \<longrightarrow>
         (\<exists>M'. step_param W jit kern g i p M =
              Some (k_raised (adam_update (kern h) (kstate (sys_of M)) (opt_id (opt M))
                      (data (heap M p)) gr (exp_avg (fst (track g i p M)))
                      (exp_avg_sq (fst (track g i p M)))), M') \<and>
            update_calls (events (sys_of M')) = update_calls (events (sys_of M)) @
              [AdamUpdate h (opt_id (opt M)) p (data (heap M p)) gr
                 (exp_avg (fst (track g i p M))) (exp_avg_sq (fst (track g i p M)))] \<and>
            fp16_param_groups M' = None))) \<and>
   (\<forall>h. ds_opt_adam (sys_of M) = Some h \<longrightarrow>
      load_op W jit (sys_of (snd (track g i p M))) =
        Some (Inr h, sys_of (snd (track g i p M)))) \<and>
   (\<forall>cl fp loss M'. step W jit kern cl fp M = Some (Inr loss, M') \<longrightarrow>
      (\<exists>E. events (sys_of M') = events (sys_of M) @ E \<and>
           List.map_filter sig_of E =
             map (expected_sig fp)
               (filter (\<lambda>e. grad (heap (snd (enter cl fp M)) (snd (snd e))) \<noteq> None)
                  (entries (param_groups (opt M))))) \<and>
      (fp = None \<longrightarrow> fp16_param_groups M' = None))"
proof (intro conjI allI impI)
  fix h s gr F
  assume "grad (heap M p) = Some gr"
    "load_op W jit (sys_of (snd (track g i p M))) = Some (Inr h, s)"
    "fp16_param_groups M = Some F" "g < length F" "i < length (F ! g)"
  then show "\<exists>M'. step_param W jit kern g i p M =
              Some (k_raised (adam_update_copy (kern h) (kstate (sys_of M)) (opt_id (opt M))
                      (data (heap M p)) gr (exp_avg (fst (track g i p M)))
                      (exp_avg_sq (fst (track g i p M))) (F ! g ! i)), M') \<and>
            update_calls (events (sys_of M')) = update_calls (events (sys_of M)) @
              [AdamUpdateCopy h (opt_id (opt M)) p (data (heap M p)) gr
                 (exp_avg (fst (track g i p M))) (exp_avg_sq (fst (track g i p M)))
                 (g, i) (F ! g ! i)] \<and>
            fp16_param_groups M' =
              Some (F[g := (F ! g)[i := k_shadow (adam_update_copy (kern h) (kstate (sys_of M))
                     (opt_id (opt M)) (data (heap M p)) gr (exp_avg (fst (track g i p M)))
                     (exp_avg_sq (fst (track g i p M))) (F ! g ! i))]])"
    by (rule step_param_copy)
next
  fix h s gr F
  assume "grad (heap M p) = Some gr"
    "load_op W jit (sys_of (snd (track g i p M))) = Some (Inr h, s)"
    "fp16_param_groups M = Some F" "\<not> (g < length F \<and> i < length (F ! g))"
  then show "\<exists>M'. step_param W jit kern g i p M = Some (Some IndexError, M') \<and>
            update_calls (events (sys_of M')) = update_calls (events (sys_of M)) \<and>
            step_at p M' = step_at p M + 1 \<and>
            fp16_param_groups M' = Some F"
    by (rule step_param_index)
next
  fix h s gr
  assume "grad (heap M p) = Some gr"
    "load_op W jit (sys_of (snd (track g i p M))) = Some (Inr h, s)"
    "fp16_param_groups M = None"
  then show "\<exists>M'. step_param W jit kern g i p M =
              Some (k_raised (adam_update (kern h) (kstate (sys_of M)) (opt_id (opt M))
                      (data (heap M p)) gr (exp_avg (fst (track g i p M)))
                      (exp_avg_sq (fst (track g i p M)))), M') \<and>
            update_calls (events (sys_of M')) = update_calls (events (sys_of M)) @
              [AdamUpdate h (opt_id (opt M)) p (data (heap M p)) gr
                 (exp_avg (fst (track g i p M))) (exp_avg_sq (fst (track g i p M)))] \<and>
            fp16_param_groups M' = None"
    by (rule step_param_plain)
next
  fix h
  assume "ds_opt_adam (sys_of M) = Some h"
  then show "load_op W jit (sys_of (snd (track g i p M))) =
        Some (Inr h, sys_of (snd (track g i p M)))"
    by (rule load_op_tracked)
next
  fix cl fp loss M'
  assume "step W jit kern cl fp M = Some (Inr loss, M')"
  then show "\<exists>E. events (sys_of M') = events (sys_of M) @ E \<and>
           List.map_filter sig_of E =
             map (expected_sig fp)
               (filter (\<lambda>e. grad (heap (snd (enter cl fp M)) (snd (snd e))) \<noteq> None)
                  (entries (param_groups (opt M))))"
    by (rule step_sigs)
next
  fix cl fp loss M'
  assume a: "step W jit kern cl fp M = Some (Inr loss, M')" and b: "fp = None"
  from step_frame[OF a] b show "fp16_param_groups M' = None" by simp
qed


subsection \<open>Examples for the state entries and the kernel calls\<close>





lemma ready_events: "events ready_sys = [MakeDirs, TouchStarted, JitLoad, TouchDone,
    CreateAdam 7 0 (1 / 1000) (9 / 10) (999 / 1000) (1 / 100000000) 0]"
  by (simp add: ready_sys_def cached_sys_def touch_done_def touch_started_def emit_def
        observe_def makedirs_def fresh_adam_sys_def fresh_sys_def)

theorem update_call_per_parameter_witness:
  "grad (heap mem0_fp16 0) = Some (vec [1 / 10, 1 / 10]) \<and>
   load_op quiet (jit_ok 7) (sys_of (snd (track 0 0 0 mem0_fp16)))
     = Some (Inr 7, sys_of (snd (track 0 0 0 mem0_fp16))) \<and>
   fp16_param_groups mem0_fp16 = Some [[shadow16, shadow16]] \<and>
   map_option (update_calls \<circ> events \<circ> sys_of \<circ> snd)
     (step_param quiet (jit_ok 7) spec_kernel 0 0 0 mem0_fp16)
     = Some [AdamUpdateCopy 7 0 0 (vec [1, 2]) (vec [1 / 10, 1 / 10]) zeros2 zeros2 (0, 0)
               shadow16] \<and>
   map_option (fp16_param_groups \<circ> snd)
     (step_param quiet (jit_ok 7) spec_kernel 0 0 0 mem0_fp16)
     = Some (Some [[k_shadow (adam_update_copy (spec_kernel 7) [0 \<mapsto> adam_defaults] 0
            (vec [1, 2]) (vec [1 / 10, 1 / 10]) zeros2 zeros2 shadow16), shadow16]]) \<and>
   fp16_param_groups mem0_short = Some [[]] \<and>
   map_option fst (step_param quiet (jit_ok 7) spec_kernel 0 0 0 mem0_short)
     = Some (Some IndexError) \<and>
   map_option (update_calls \<circ> events \<circ> sys_of \<circ> snd)
     (step_param quiet (jit_ok 7) spec_kernel 0 0 0 mem0_short) = Some [] \<and>
   map_option (step_at 0 \<circ> snd)
     (step_param quiet (jit_ok 7) spec_kernel 0 0 0 mem0_short) = Some 1 \<and>
   map_option (update_calls \<circ> events \<circ> sys_of \<circ> snd)
     (step_param quiet (jit_ok 7) spec_kernel 0 0 0 (mem0 [[0, 2]]))
     = Some [AdamUpdate 7 0 0 (vec [1, 2]) (vec [1 / 10, 1 / 10]) zeros2 zeros2] \<and>
   map_option (fp16_param_groups \<circ> snd)
     (step_param quiet (jit_ok 7) spec_kernel 0 0 0 (mem0 [[0, 2]])) = Some None \<and>
   map_option (List.map_filter sig_of \<circ> drop 5 \<circ> events \<circ> sys_of \<circ> snd)
     (step quiet (jit_ok 7) spec_kernel None (Some [[shadow16, shadow16]]) (mem0 [[0, 2]]))
     = Some [Copy 0 0 0, Copy 2 0 1]"
proof -
  let ?F = "[[shadow16, shadow16]]"
  note A = update_call_per_parameter[of mem0_fp16 0 quiet "jit_ok 7" 0 0 spec_kernel]
  note B = update_call_per_parameter[of "mem0 [[0, 2]]" 0 quiet "jit_ok 7" 0 0 spec_kernel]
  note D = update_call_per_parameter[of mem0_short 0 quiet "jit_ok 7" 0 0 spec_kernel]
  have sl: "ds_opt_adam (sys_of mem0_fp16) = Some 7" "ds_opt_adam (sys_of (mem0 [[0, 2]])) = Some 7"
    "ds_opt_adam (sys_of mem0_short) = Some 7"
    by (simp_all add: mem0_fp16_def mem0_short_def mem0_def ready_slot)
  have gr: "grad (heap mem0_fp16 0) = Some (vec [1 / 10, 1 / 10])"
    "grad (heap (mem0 [[0, 2]]) 0) = Some (vec [1 / 10, 1 / 10])"
    "grad (heap mem0_short 0) = Some (vec [1 / 10, 1 / 10])"
    by (simp_all add: mem0_fp16_def mem0_short_def mem0_def heap0_def)
  have fp: "fp16_param_groups mem0_fp16 = Some ?F" "fp16_param_groups (mem0 [[0, 2]]) = None"
    "fp16_param_groups mem0_short = Some [[]]"
    by (simp_all add: mem0_fp16_def mem0_short_def mem0_def)
  have rng: "0 < length ?F" "0 < length (?F ! 0)" by simp_all
  have nrng: "\<not> (0 < length [[] :: real tensor list] \<and> 0 < length ([[]] ! 0 :: real tensor list))"
    by simp
  have tr: "fst (track 0 0 0 mem0_fp16) = \<lparr>step_count = 1, exp_avg = zeros2, exp_avg_sq = zeros2\<rparr>"
    "fst (track 0 0 0 (mem0 [[0, 2]])) = \<lparr>step_count = 1, exp_avg = zeros2, exp_avg_sq = zeros2\<rparr>"
    by (simp_all add: track_def mem0_fp16_def mem0_def opt0_def heap0_def fresh_state_def
          zeros_like_cpu_def numel_def vec_def zeros2_def Let_def)
  have basics: "kstate (sys_of mem0_fp16) = [0 \<mapsto> adam_defaults]"
    "opt_id (opt mem0_fp16) = 0" "data (heap mem0_fp16 0) = vec [1, 2]"
    "kstate (sys_of (mem0 [[0, 2]])) = [0 \<mapsto> adam_defaults]"
    "opt_id (opt (mem0 [[0, 2]])) = 0" "data (heap (mem0 [[0, 2]]) 0) = vec [1, 2]"
    "update_calls (events (sys_of mem0_fp16)) = []"
    "update_calls (events (sys_of (mem0 [[0, 2]]))) = []"
    "update_calls (events (sys_of mem0_short)) = []"
    "step_at 0 mem0_short = 0"
    by (simp_all add: mem0_fp16_def mem0_short_def mem0_def opt0_def heap0_def ready_kstate
          ready_events update_calls_def step_at_def step_of_def)
  note la = A[THEN conjunct2, THEN conjunct1, rule_format, OF sl(1)]
  note lb = B[THEN conjunct2, THEN conjunct1, rule_format, OF sl(2)]
  note ld = D[THEN conjunct2, THEN conjunct1, rule_format, OF sl(3)]
  note A1 = A[THEN conjunct1, rule_format, OF gr(1) la]
  note A2 = A1[THEN conjunct1, rule_format, OF fp(1) rng]
  from A2 obtain M1 where
    "step_param quiet (jit_ok 7) spec_kernel 0 0 0 mem0_fp16 =
       Some (k_raised (adam_update_copy (spec_kernel 7) (kstate (sys_of mem0_fp16))
               (opt_id (opt mem0_fp16)) (data (heap mem0_fp16 0)) (vec [1 / 10, 1 / 10])
               (exp_avg (fst (track 0 0 0 mem0_fp16))) (exp_avg_sq (fst (track 0 0 0 mem0_fp16)))
               (?F ! 0 ! 0)), M1) \<and>
     update_calls (events (sys_of M1)) = update_calls (events (sys_of mem0_fp16)) @
       [AdamUpdateCopy 7 (opt_id (opt mem0_fp16)) 0 (data (heap mem0_fp16 0)) (vec [1 / 10, 1 / 10])
          (exp_avg (fst (track 0 0 0 mem0_fp16))) (exp_avg_sq (fst (track 0 0 0 mem0_fp16)))
          (0, 0) (?F ! 0 ! 0)] \<and>
     fp16_param_groups M1 =
       Some (?F[0 := (?F ! 0)[0 := k_shadow (adam_update_copy (spec_kernel 7)
          (kstate (sys_of mem0_fp16)) (opt_id (opt mem0_fp16)) (data (heap mem0_fp16 0))
          (vec [1 / 10, 1 / 10]) (exp_avg (fst (track 0 0 0 mem0_fp16)))
          (exp_avg_sq (fst (track 0 0 0 mem0_fp16))) (?F ! 0 ! 0))]])" ..
  then have c1: "map_option (update_calls \<circ> events \<circ> sys_of \<circ> snd)
       (step_param quiet (jit_ok 7) spec_kernel 0 0 0 mem0_fp16)
     = Some [AdamUpdateCopy 7 0 0 (vec [1, 2]) (vec [1 / 10, 1 / 10]) zeros2 zeros2 (0, 0)
               shadow16]"
    and c2: "map_option (fp16_param_groups \<circ> snd)
       (step_param quiet (jit_ok 7) spec_kernel 0 0 0 mem0_fp16)
     = Some (Some [[k_shadow (adam_update_copy (spec_kernel 7) [0 \<mapsto> adam_defaults] 0
            (vec [1, 2]) (vec [1 / 10, 1 / 10]) zeros2 zeros2 shadow16), shadow16]])"
    by (simp_all add: basics tr)
  note D1 = D[THEN conjunct1, rule_format, OF gr(3) ld]
  note D2 = D1[THEN conjunct2, THEN conjunct1, rule_format, OF fp(3) nrng]
  from D2 obtain M4 where
    "step_param quiet (jit_ok 7) spec_kernel 0 0 0 mem0_short = Some (Some IndexError, M4) \<and>
     update_calls (events (sys_of M4)) = update_calls (events (sys_of mem0_short)) \<and>
     step_at 0 M4 = step_at 0 mem0_short + 1 \<and>
     fp16_param_groups M4 = Some [[]]" ..
  then have x1: "map_option fst (step_param quiet (jit_ok 7) spec_kernel 0 0 0 mem0_short)
       = Some (Some IndexError)"
    and x2: "map_option (update_calls \<circ> events \<circ> sys_of \<circ> snd)
       (step_param quiet (jit_ok 7) spec_kernel 0 0 0 mem0_short) = Some []"
    and x3: "map_option (step_at 0 \<circ> snd)
       (step_param quiet (jit_ok 7) spec_kernel 0 0 0 mem0_short) = Some 1"
    by (simp_all add: basics)
  note B1 = B[THEN conjunct1, rule_format, OF gr(2) lb]
  note B2 = B1[THEN conjunct2, THEN conjunct2, rule_format, OF fp(2)]
  from B2 obtain M2 where
    "step_param quiet (jit_ok 7) spec_kernel 0 0 0 (mem0 [[0, 2]]) =
       Some (k_raised (adam_update (spec_kernel 7) (kstate (sys_of (mem0 [[0, 2]])))
               (opt_id (opt (mem0 [[0, 2]]))) (data (heap (mem0 [[0, 2]]) 0)) (vec [1 / 10, 1 / 10])
               (exp_avg (fst (track 0 0 0 (mem0 [[0, 2]]))))
               (exp_avg_sq (fst (track 0 0 0 (mem0 [[0, 2]]))))), M2) \<and>
     update_calls (events (sys_of M2)) = update_calls (events (sys_of (mem0 [[0, 2]]))) @
       [AdamUpdate 7 (opt_id (opt (mem0 [[0, 2]]))) 0 (data (heap (mem0 [[0, 2]]) 0))
          (vec [1 / 10, 1 / 10]) (exp_avg (fst (track 0 0 0 (mem0 [[0, 2]]))))
          (exp_avg_sq (fst (track 0 0 0 (mem0 [[0, 2]]))))] \<and>
     fp16_param_groups M2 = None" ..
  then have d1: "map_option (update_calls \<circ> events \<circ> sys_of \<circ> snd)
       (step_param quiet (jit_ok 7) spec_kernel 0 0 0 (mem0 [[0, 2]]))
     = Some [AdamUpdate 7 0 0 (vec [1, 2]) (vec [1 / 10, 1 / 10]) zeros2 zeros2]"
    and d2: "map_option (fp16_param_groups \<circ> snd)
       (step_param quiet (jit_ok 7) spec_kernel 0 0 0 (mem0 [[0, 2]])) = Some None"
    by (simp_all add: basics tr)
  have r: "map_option fst
      (step quiet (jit_ok 7) spec_kernel None (Some ?F) (mem0 [[0, 2]])) = Some (Inr None)"
    by (simp add: mem_ops adam_ops ex_defs shadow16_def)
  then obtain M3 where s3: "step quiet (jit_ok 7) spec_kernel None (Some ?F) (mem0 [[0, 2]])
      = Some (Inr None, M3)" by auto
  note B3 = B[THEN conjunct2, THEN conjunct2, rule_format, OF s3]
  from B3[THEN conjunct1] obtain E where
    "events (sys_of M3) = events (sys_of (mem0 [[0, 2]])) @ E \<and>
     List.map_filter sig_of E =
       map (expected_sig (Some ?F))
         (filter (\<lambda>e. grad (heap (snd (enter None (Some ?F) (mem0 [[0, 2]]))) (snd (snd e))) \<noteq> None)
            (entries (param_groups (opt (mem0 [[0, 2]])))))" ..
  then have E: "events (sys_of M3) = events ready_sys @ E"
    "List.map_filter sig_of E = [Copy 0 0 0, Copy 2 0 1]"
    by (simp_all add: mem0_def opt0_def heap0_def enter_def entries_def group_entries_def
          default_group_def expected_sig_def enumerate_eq_zip)
  have "drop 5 (events (sys_of M3)) = E" using E(1) by (simp add: ready_events)
  with E(2) s3 have e1: "map_option (List.map_filter sig_of \<circ> drop 5 \<circ> events \<circ> sys_of \<circ> snd)
     (step quiet (jit_ok 7) spec_kernel None (Some ?F) (mem0 [[0, 2]]))
     = Some [Copy 0 0 0, Copy 2 0 1]" by simp
  from gr(1) la fp(1) fp(3) c1 c2 x1 x2 x3 d1 d2 e1 show ?thesis by simp
qed

text \<open>
  The claim as the specification words it (with shadow groups supplied, exactly one
  \<^verbatim>\<open>adam_update_copy\<close> call for every parameter with a gradient that
  \<^verbatim>\<open>step\<close> processes) fails when the shadow groups hold no tensor at the position
  of the parameter: with \<^verbatim>\<open>fp16_param_groups = [[]]\<close> the first parameter carries
  a gradient and gets its state entry and its step counter raised, then
  \<^verbatim>\<open>fp16_param_groups[0][0]\<close> raises \<^verbatim>\<open>IndexError\<close>, and the log of the call
  holds no kernel update call.
\<close>

theorem update_call_missing_counterexample:
  "grad (heap (mem0 [[0, 2]]) 0) = Some (vec [1 / 10, 1 / 10]) \<and>
   update_calls (events (sys_of (mem0 [[0, 2]]))) = [] \<and>
   map_option fst (step quiet (jit_ok 7) spec_kernel None (Some [[]]) (mem0 [[0, 2]]))
     = Some (Inl IndexError) \<and>
   map_option (step_at 0 \<circ> snd)
     (step quiet (jit_ok 7) spec_kernel None (Some [[]]) (mem0 [[0, 2]])) = Some 1 \<and>
   map_option (update_calls \<circ> events \<circ> sys_of \<circ> snd)
     (step quiet (jit_ok 7) spec_kernel None (Some [[]]) (mem0 [[0, 2]])) = Some []"
  by (simp add: mem_ops adam_ops ex_defs update_calls_def ready_events)

subsection \<open>A call that raises\<close>


text \<open>
  Claim C8. Let the loop have gone through the positions \<open>pre\<close> without an
  exception, reaching memory \<open>M1\<close>, and let the next parameter \<open>p\<close> raise
  \<open>err\<close> (in the kernel call, or in any other step of its iteration), leaving
  memory \<open>M2\<close>. Then \<^verbatim>\<open>step\<close> raises \<open>err\<close> with \<open>M2\<close>, and
  \<open>M2\<close> is \<open>M1\<close> for every other parameter: state entries, buffers and
  parameter data are as the earlier iterations left them, and each counter has been
  raised once per processed position. The positions \<open>post\<close> are not visited:
  nothing is logged after \<open>M1\<close> but what the iteration of \<open>p\<close> did.
\<close>

theorem step_not_atomic:
  assumes "entries (param_groups (opt M)) = pre @ (g, i, p) # post"
    and "fst (enter cl fp M) = Inr loss"
    and "step_entries W jit kern pre (snd (enter cl fp M)) = Some (None, M1)"
    and "step_param W jit kern g i p M1 = Some (Some err, M2)"
  shows "step W jit kern cl fp M = Some (Inl err, M2) \<and>
     (\<forall>q. q \<noteq> p \<longrightarrow> state (opt M2) q = state (opt M1) q \<and> heap M2 q = heap M1 q) \<and>
     (\<forall>q. q \<noteq> p \<longrightarrow>
        step_at q M2 = step_at q M +
          (if grad (heap (snd (enter cl fp M)) q) = None then 0
           else int (count_list (map (snd \<circ> snd) pre) q))) \<and>
     (\<exists>E. events (sys_of M2) = events (sys_of M1) @ E \<and>
          (\<forall>ev\<in>set E. \<forall>q. pid_of ev = Some q \<longrightarrow> q = p))"
proof -
  let ?M0 = "snd (enter cl fp M)"
  obtain M0 where e: "enter cl fp M = (Inr loss, M0)"
    using assms(2) by (cases "enter cl fp M") simp
  then have M0: "?M0 = M0" by simp
  have o: "opt ?M0 = opt M" by (simp add: enter_fields)
  have "step_entries W jit kern ((g, i, p) # post) M1 = Some (Some err, M2)"
    using assms(4) by simp
  with assms(3) have "step_entries W jit kern (pre @ (g, i, p) # post) ?M0 = Some (Some err, M2)"
    by (simp add: step_entries_append)
  then have "step_groups W jit kern (enumerate 0 (param_groups (opt ?M0))) ?M0
      = Some (Some err, M2)"
    by (simp only: step_groups_entries o assms(1))
  then have "step_groups W jit kern (enumerate 0 (param_groups (opt M0))) M0
      = Some (Some err, M2)"
    by (simp only: M0)
  then have a: "step W jit kern cl fp M = Some (Inl err, M2)"
    by (simp add: step_def e del: step_groups.simps)
  note F = step_param_frame[OF assms(4)]
  have b: "\<forall>q. q \<noteq> p \<longrightarrow> state (opt M2) q = state (opt M1) q \<and> heap M2 q = heap M1 q"
    using F by simp
  have c: "\<forall>q. q \<noteq> p \<longrightarrow>
        step_at q M2 = step_at q M +
          (if grad (heap ?M0 q) = None then 0 else int (count_list (map (snd \<circ> snd) pre) q))"
  proof (intro allI impI)
    fix q assume "q \<noteq> p"
    with b have "step_at q M2 = step_at q M1" by (simp add: step_at_def)
    also have "\<dots> = step_at q ?M0 +
          (if grad (heap ?M0 q) = None then 0 else int (count_list (map (snd \<circ> snd) pre) q))"
      using step_entries_count[OF assms(3), of q] by (simp add: step_at_def)
    also have "step_at q ?M0 = step_at q M" by (simp add: step_at_def o)
    finally show "step_at q M2 = step_at q M +
          (if grad (heap ?M0 q) = None then 0 else int (count_list (map (snd \<circ> snd) pre) q))" .
  qed
  from step_param_events[OF assms(4)] obtain E where
    "events (sys_of M2) = events (sys_of M1) @ E \<and>
     (\<forall>ev\<in>set E. \<forall>q. pid_of ev = Some q \<longrightarrow> q = p \<and> grad (heap M1 p) \<noteq> None)" ..
  then have d: "\<exists>E. events (sys_of M2) = events (sys_of M1) @ E \<and>
          (\<forall>ev\<in>set E. \<forall>q. pid_of ev = Some q \<longrightarrow> q = p)"
    by (intro exI[of _ E]) simp
  from a b c d show ?thesis by (intro conjI)
qed


theorem step_not_atomic_witness:
  "map_option fst (step quiet (jit_ok 7) spec_kernel None None bad_mem)
     = Some (Inl ShapeError) \<and>
   map_option (step_at 0 \<circ> snd) (step quiet (jit_ok 7) spec_kernel None None bad_mem) = Some 1 \<and>
   map_option (step_at 3 \<circ> snd) (step quiet (jit_ok 7) spec_kernel None None bad_mem) = Some 0 \<and>
   map_option (map_option (elems \<circ> exp_avg) \<circ> state_at 0 \<circ> snd)
     (step quiet (jit_ok 7) spec_kernel None None bad_mem)
     = Some (Some [1 / 100, 1 / 100]) \<and>
   map_option (state_at 3 \<circ> snd) (step quiet (jit_ok 7) spec_kernel None None bad_mem)
     = Some None"
proof -
  let ?W = quiet and ?J = "jit_ok 7 :: (real, adam_state) jit"
  let ?M1 = "snd (dispatch spec_kernel 7 0 0 0 (vec [1 / 10, 1 / 10])
                (fst (track 0 0 0 bad_mem)) (snd (track 0 0 0 bad_mem)))"
  let ?M2 = "snd (dispatch spec_kernel 7 0 1 2 (vec [1 / 10])
                (fst (track 0 1 2 ?M1)) (snd (track 0 1 2 ?M1)))"
  have en: "enter None None bad_mem = (Inr None, bad_mem)"
    by (simp add: enter_def bad_mem_def mem0_def)
  have ent: "entries (param_groups (opt bad_mem)) = [] @ (0, 0, 0) # [(0, 1, 2), (0, 2, 3)]"
    by (simp add: bad_mem_def mem0_def opt0_def default_group_def entries_def
          group_entries_def enumerate_eq_zip)
  have sl0: "ds_opt_adam (sys_of bad_mem) = Some 7"
    by (simp add: bad_mem_def mem0_def ready_slot)
  have g0: "grad (heap bad_mem 0) = Some (vec [1 / 10, 1 / 10])"
    and g2: "grad (heap bad_mem 2) = Some (vec [1 / 10])"
    and g3: "grad (heap bad_mem 3) \<noteq> None"
    by (simp_all add: bad_mem_def mem0_def heap0_def)
  have p0: "step_param ?W ?J spec_kernel 0 0 0 bad_mem =
      Some (dispatch spec_kernel 7 0 0 0 (vec [1 / 10, 1 / 10])
                (fst (track 0 0 0 bad_mem)) (snd (track 0 0 0 bad_mem)))"
    by (rule step_param_loaded[OF sl0 g0])
  have r0: "fst (dispatch spec_kernel 7 0 0 0 (vec [1 / 10, 1 / 10])
                (fst (track 0 0 0 bad_mem)) (snd (track 0 0 0 bad_mem))) = None"
    by (simp add: mem_ops adam_ops ex_defs bad_mem_def)
  from p0 r0 have p0': "step_param ?W ?J spec_kernel 0 0 0 bad_mem = Some (None, ?M1)"
    by (simp add: prod_eq_iff)
  note F0 = step_param_frame[OF p0']
  have sl1: "ds_opt_adam (sys_of ?M1) = Some 7" using F0 sl0 by simp
  have g2': "grad (heap ?M1 2) = Some (vec [1 / 10])" using F0 g2 by simp
  have p2: "step_param ?W ?J spec_kernel 0 1 2 ?M1 =
      Some (dispatch spec_kernel 7 0 1 2 (vec [1 / 10])
                (fst (track 0 1 2 ?M1)) (snd (track 0 1 2 ?M1)))"
    by (rule step_param_loaded[OF sl1 g2'])
  have r2: "fst (dispatch spec_kernel 7 0 1 2 (vec [1 / 10])
                (fst (track 0 1 2 ?M1)) (snd (track 0 1 2 ?M1))) = Some ShapeError"
    by (simp add: mem_ops adam_ops ex_defs bad_mem_def)
  from p2 r2 have p2': "step_param ?W ?J spec_kernel 0 1 2 ?M1 = Some (Some ShapeError, ?M2)"
    by (simp add: prod_eq_iff)
  have h1: "entries (param_groups (opt bad_mem)) = [(0, 0, 0)] @ (0, 1, 2) # [(0, 2, 3)]"
    using ent by simp
  have h2: "fst (enter None None bad_mem) = Inr None" using en by simp
  have h3: "step_entries ?W ?J spec_kernel [(0, 0, 0)] (snd (enter None None bad_mem))
      = Some (None, ?M1)"
    using p0' by (simp add: en)
  note T = step_not_atomic[OF h1 h2 h3 p2']
  from T have s: "step ?W ?J spec_kernel None None bad_mem = Some (Inl ShapeError, ?M2)"
    by (rule conjunct1)
  have z: "step_at 0 bad_mem = 0" "step_at 3 bad_mem = 0" "state (opt bad_mem) 3 = None"
    by (simp_all add: step_at_def step_of_def bad_mem_def mem0_def opt0_def)
  have c0: "step_at 0 ?M2 = 1"
    using T[THEN conjunct2, THEN conjunct2, THEN conjunct1, rule_format, of 0] z g0
    by (simp add: en)
  have c3: "step_at 3 ?M2 = 0"
    using T[THEN conjunct2, THEN conjunct2, THEN conjunct1, rule_format, of 3] z g3
    by (simp add: en)
  have k: "state (opt ?M2) q = state (opt ?M1) q" if "q \<noteq> 2" for q
    using T[THEN conjunct2, THEN conjunct1, rule_format, of q] that by simp
  have "state (opt ?M1) 3 = state (opt bad_mem) 3" using F0 by simp
  with k[of 3] z(3) have s3: "state_at 3 ?M2 = None" by (simp add: state_at_def)
  have "map_option (elems \<circ> exp_avg) (state (opt ?M1) 0) = Some [1 / 100, 1 / 100]"
    by (simp add: mem_ops adam_ops ex_defs bad_mem_def)
  with k[of 0] have s0: "map_option (elems \<circ> exp_avg) (state_at 0 ?M2) = Some [1 / 100, 1 / 100]"
    by (simp add: state_at_def)
  from s c0 c3 s0 s3 show ?thesis by simp
qed


subsection \<open>Shape and dtype of the buffers\<close>



lemma same_meta_trans: "same_meta a b \<Longrightarrow> same_meta b c \<Longrightarrow> same_meta a c"
  by (simp add: same_meta_def)


















subsection \<open>The \<^verbatim>\<open>amsgrad\<close> flag\<close>


lemma set_amsgrad_fields:
  "opt_id (set_amsgrad b ob) = opt_id ob"
  "state (set_amsgrad b ob) = state ob"
  "map params (param_groups (set_amsgrad b ob)) = map params (param_groups ob)"
  "length (param_groups (set_amsgrad b ob)) = length (param_groups ob)"
  by (simp_all add: set_amsgrad_def comp_def)

lemma with_amsgrad_fields:
  "sys_of (with_amsgrad b M) = sys_of M"
  "heap (with_amsgrad b M) = heap M"
  "fp16_param_groups (with_amsgrad b M) = fp16_param_groups M"
  "opt_id (opt (with_amsgrad b M)) = opt_id (opt M)"
  "state (opt (with_amsgrad b M)) = state (opt M)"
  by (simp_all add: with_amsgrad_def set_amsgrad_def)

lemma with_amsgrad_commute:
  "with_amsgrad b (log ev M) = log ev (with_amsgrad b M)"
  "with_amsgrad b (set_state p ps M) = set_state p ps (with_amsgrad b M)"
  "with_amsgrad b (set_data p t M) = set_data p t (with_amsgrad b M)"
  "with_amsgrad b (set_kstate k M) = set_kstate k (with_amsgrad b M)"
  "with_amsgrad b (M\<lparr>sys_of := s\<rparr>) = (with_amsgrad b M)\<lparr>sys_of := s\<rparr>"
  "with_amsgrad b (M\<lparr>heap := hp\<rparr>) = (with_amsgrad b M)\<lparr>heap := hp\<rparr>"
  "with_amsgrad b (M\<lparr>fp16_param_groups := F\<rparr>) = (with_amsgrad b M)\<lparr>fp16_param_groups := F\<rparr>"
  by (simp_all add: with_amsgrad_def set_amsgrad_def log_def set_state_def set_data_def
        set_kstate_def)

lemma track_amsgrad:
  "track g i p (with_amsgrad b M) = map_prod id (with_amsgrad b) (track g i p M)"
  by (simp add: track_def Let_def with_amsgrad_fields with_amsgrad_commute
        split: option.splits)

lemma call_adam_update_amsgrad:
  "call_adam_update kern h p gr ps (with_amsgrad b M) =
   map_prod id (with_amsgrad b) (call_adam_update kern h p gr ps M)"
  by (simp add: call_adam_update_def Let_def with_amsgrad_fields with_amsgrad_commute mem_simps)

lemma call_adam_update_copy_amsgrad:
  "call_adam_update_copy kern h p gr ps F g i (with_amsgrad b M) =
   map_prod id (with_amsgrad b) (call_adam_update_copy kern h p gr ps F g i M)"
  by (simp add: call_adam_update_copy_def Let_def with_amsgrad_fields with_amsgrad_commute
        mem_simps)

lemma dispatch_amsgrad:
  "dispatch kern h g i p gr ps (with_amsgrad b M) =
   map_prod id (with_amsgrad b) (dispatch kern h g i p gr ps M)"
  by (simp add: dispatch_def with_amsgrad_fields call_adam_update_amsgrad
        call_adam_update_copy_amsgrad split: option.splits)

lemma step_param_amsgrad:
  "step_param W jit kern g i p (with_amsgrad b M) =
   map_option (map_prod id (with_amsgrad b)) (step_param W jit kern g i p M)"
proof (cases "grad (heap M p)")
  case None
  then show ?thesis by (simp add: step_param_def with_amsgrad_fields)
next
  case (Some gr)
  obtain ps1 M2 where t: "track g i p M = (ps1, M2)" by (cases "track g i p M")
  then have t': "track g i p (with_amsgrad b M) = (ps1, with_amsgrad b M2)"
    by (simp add: track_amsgrad)
  show ?thesis
  proof (cases "load_op W jit (sys_of M2)")
    case None
    with Some t t' show ?thesis by (simp add: step_param_def with_amsgrad_fields)
  next
    case (Some rs)
    obtain r s where rs: "rs = (r, s)" by (cases rs)
    show ?thesis
    proof (cases r)
      case (Inl err)
      with Some rs \<open>grad (heap M p) = Some gr\<close> t t' show ?thesis
        by (simp add: step_param_def with_amsgrad_fields with_amsgrad_commute)
    next
      case (Inr h)
      with Some rs \<open>grad (heap M p) = Some gr\<close> t t' show ?thesis
        by (simp add: step_param_def with_amsgrad_fields with_amsgrad_commute[symmetric]
              dispatch_amsgrad)
    qed
  qed
qed

lemma step_entries_amsgrad:
  "step_entries W jit kern es (with_amsgrad b M) =
   map_option (map_prod id (with_amsgrad b)) (step_entries W jit kern es M)"
proof (induction es arbitrary: M)
  case Nil
  show ?case by simp
next
  case (Cons x es)
  obtain g i p where x: "x = (g, i, p)" by (cases x) auto
  show ?case
    by (simp add: x step_param_amsgrad Cons.IH split: option.splits prod.splits)
qed

lemma entries_via_params:
  "map (\<lambda>(g, G). group_entries g (params G)) (enumerate n gs) =
   map (\<lambda>(g, ps). group_entries g ps) (enumerate n (map params gs))"
  by (induction gs arbitrary: n) simp_all

lemma entries_params:
  assumes "map params gs = map params gs'"
  shows "entries gs = entries gs'"
proof -
  have "entries gs = concat (map (\<lambda>(g, ps). group_entries g ps) (enumerate 0 (map params gs)))"
    by (simp only: entries_def entries_via_params)
  also have "\<dots> = concat (map (\<lambda>(g, ps). group_entries g ps) (enumerate 0 (map params gs')))"
    by (simp only: assms)
  also have "\<dots> = entries gs'"
    by (simp only: entries_def entries_via_params)
  finally show ?thesis .
qed

lemma entries_amsgrad:
  "entries (param_groups (opt (with_amsgrad b M))) = entries (param_groups (opt M))"
  by (rule entries_params) (simp add: with_amsgrad_def set_amsgrad_fields)

lemma enter_amsgrad:
  "enter cl fp (with_amsgrad b M) = map_prod id (with_amsgrad b) (enter cl fp M)"
  by (simp add: enter_def Let_def with_amsgrad_fields with_amsgrad_commute
        split: option.splits prod.splits sum.splits)

lemma step_flat:
  "step W jit kern cl fp M =
     (case enter cl fp M of
        (Inl err, M0) \<Rightarrow> Some (Inl err, M0)
      | (Inr loss, M0) \<Rightarrow>
          (case step_entries W jit kern (entries (param_groups (opt M0))) M0 of
             None \<Rightarrow> None
           | Some (Some err, M1) \<Rightarrow> Some (Inl err, M1)
           | Some (None, M1) \<Rightarrow> Some (Inr loss, M1)))"
  by (simp add: step_def step_groups_entries split: prod.splits sum.splits)

lemma step_amsgrad:
  "step W jit kern cl fp (with_amsgrad b M) =
   map_option (map_prod id (with_amsgrad b)) (step W jit kern cl fp M)"
proof -
  obtain r0 M0 where e: "enter cl fp M = (r0, M0)" by (cases "enter cl fp M")
  then have e': "enter cl fp (with_amsgrad b M) = (r0, with_amsgrad b M0)"
    by (simp add: enter_amsgrad)
  show ?thesis
    by (simp add: step_flat e e' entries_amsgrad step_entries_amsgrad
          split: sum.splits option.splits prod.splits)
qed

lemma steps_amsgrad:
  "steps W jit kern cs (with_amsgrad b M) =
   map_option (map_prod id (with_amsgrad b)) (steps W jit kern cs M)"
proof (induction cs arbitrary: M)
  case Nil
  show ?case by simp
next
  case (Cons c cs)
  obtain pre cl fp where c: "c = (pre, cl, fp)" by (cases c) auto
  have h: "(with_amsgrad b M)\<lparr>heap := pre (heap (with_amsgrad b M))\<rparr> =
        with_amsgrad b (M\<lparr>heap := pre (heap M)\<rparr>)"
    by (simp add: with_amsgrad_commute with_amsgrad_fields)
  show ?case
    unfolding c steps.simps h step_amsgrad
    by (simp add: Cons.IH split: option.splits prod.splits sum.splits)
qed

lemma init_amsgrad:
  "init W jit kern mp l bs e wd b s =
   map_option (map_prod (map_sum id (set_amsgrad b)) id) (init W jit kern mp l bs e wd a s)"
  by (simp add: init_def optimizer_init_def Let_def set_amsgrad_def default_group_def comp_def
        split: option.splits prod.splits sum.splits list.splits)


lemma init_records_amsgrad:
  assumes "init W jit kern mp l bs e wd a s = Some (Inr ob, s')"
  shows "map amsgrad (param_groups ob) = replicate (length mp) a"
proof -
  from init_Some[OF assms] have "param_groups ob = map (default_group l bs e wd a) mp" by simp
  then show ?thesis by (simp add: default_group_def comp_def map_replicate_const)
qed

text \<open>
  Claim C10. Two constructions that differ in \<^verbatim>\<open>amsgrad\<close> only end in the same
  process state (so with the same log, where the \<^verbatim>\<open>create_adam\<close> call carries the
  id and the five numbers, and with the same kernel state) or raise the same exception,
  and the optimizers they return differ in the \<^verbatim>\<open>amsgrad\<close> entry of the groups
  only, which holds the argument. Two runs of \<^verbatim>\<open>step\<close> calls on memories that
  differ in that entry only give the same results, the same process state (log of
  kernel calls and kernel state), the same tensors and the same optimizer state.
\<close>

theorem amsgrad_never_reaches_kernel:
  "init W jit kern mp l bs e wd b s =
     map_option (map_prod (map_sum id (set_amsgrad b)) id) (init W jit kern mp l bs e wd a s) \<and>
   map_option snd (init W jit kern mp l bs e wd b s) =
     map_option snd (init W jit kern mp l bs e wd a s) \<and>
   (\<forall>ob s'. init W jit kern mp l bs e wd a s = Some (Inr ob, s') \<longrightarrow>
      map amsgrad (param_groups ob) = replicate (length mp) a) \<and>
   steps W jit kern cs (with_amsgrad b M) =
     map_option (map_prod id (with_amsgrad b)) (steps W jit kern cs M) \<and>
   map_option (map_prod id sys_of) (steps W jit kern cs (with_amsgrad b M)) =
     map_option (map_prod id sys_of) (steps W jit kern cs M) \<and>
   map_option (heap \<circ> snd) (steps W jit kern cs (with_amsgrad b M)) =
     map_option (heap \<circ> snd) (steps W jit kern cs M) \<and>
   map_option (state \<circ> opt \<circ> snd) (steps W jit kern cs (with_amsgrad b M)) =
     map_option (state \<circ> opt \<circ> snd) (steps W jit kern cs M)"
proof (intro conjI allI impI)
  show i: "init W jit kern mp l bs e wd b s =
     map_option (map_prod (map_sum id (set_amsgrad b)) id) (init W jit kern mp l bs e wd a s)"
    by (rule init_amsgrad)
  show "map_option snd (init W jit kern mp l bs e wd b s) =
     map_option snd (init W jit kern mp l bs e wd a s)"
    by (simp add: init_amsgrad[of W jit kern mp l bs e wd b s a] option.map_comp comp_def
          split: prod.splits)
next
  fix ob s'
  assume "init W jit kern mp l bs e wd a s = Some (Inr ob, s')"
  then show "map amsgrad (param_groups ob) = replicate (length mp) a"
    by (rule init_records_amsgrad)
next
  show "steps W jit kern cs (with_amsgrad b M) =
     map_option (map_prod id (with_amsgrad b)) (steps W jit kern cs M)"
    by (rule steps_amsgrad)
next
  show "map_option (map_prod id sys_of) (steps W jit kern cs (with_amsgrad b M)) =
     map_option (map_prod id sys_of) (steps W jit kern cs M)"
    by (cases "steps W jit kern cs M")
       (simp_all add: steps_amsgrad with_amsgrad_fields prod.map_comp comp_def
          map_prod_def case_prod_beta)
next
  show "map_option (heap \<circ> snd) (steps W jit kern cs (with_amsgrad b M)) =
     map_option (heap \<circ> snd) (steps W jit kern cs M)"
    by (simp add: steps_amsgrad option.map_comp comp_def with_amsgrad_fields)
next
  show "map_option (state \<circ> opt \<circ> snd) (steps W jit kern cs (with_amsgrad b M)) =
     map_option (state \<circ> opt \<circ> snd) (steps W jit kern cs M)"
    by (simp add: steps_amsgrad option.map_comp comp_def with_amsgrad_fields)
qed


lemma init_ready:
  "base_accepts gs \<Longrightarrow>
   init quiet (jit_ok 7) spec_kernel gs (1 / 1000) [9 / 10, 999 / 1000] (1 / 100000000) 0 False
     fresh_adam_sys = Some (Inr (opt0 gs), ready_sys)"
  by (simp add: init_def optimizer_init_def Let_def sys_ops opt0_def ready_sys_def cached_sys_def
        fresh_adam_sys_def fresh_sys_def quiet_def jit_ok_def spec_kernel_def spec_create_def
        adam_defaults_def)

theorem amsgrad_never_reaches_kernel_witness:
  "map_option (map_sum id (map amsgrad \<circ> param_groups) \<circ> fst)
     (init quiet (jit_ok 7) spec_kernel [[0, 2]] (1 / 1000) [9 / 10, 999 / 1000]
        (1 / 100000000) 0 False fresh_adam_sys) = Some (Inr [False]) \<and>
   map_option (map_sum id (map amsgrad \<circ> param_groups) \<circ> fst)
     (init quiet (jit_ok 7) spec_kernel [[0, 2]] (1 / 1000) [9 / 10, 999 / 1000]
        (1 / 100000000) 0 True fresh_adam_sys) = Some (Inr [True]) \<and>
   map_option snd
     (init quiet (jit_ok 7) spec_kernel [[0, 2]] (1 / 1000) [9 / 10, 999 / 1000]
        (1 / 100000000) 0 True fresh_adam_sys) = Some ready_sys \<and>
   map_option snd
     (init quiet (jit_ok 7) spec_kernel [[0, 2]] (1 / 1000) [9 / 10, 999 / 1000]
        (1 / 100000000) 0 False fresh_adam_sys) = Some ready_sys \<and>
   map_option (map_prod id sys_of)
     (steps quiet (jit_ok 7) spec_kernel [(id, None, None)] (with_amsgrad True (mem0 [[0, 2]]))) =
   map_option (map_prod id sys_of)
     (steps quiet (jit_ok 7) spec_kernel [(id, None, None)] (mem0 [[0, 2]]))"
proof -
  let ?init = "\<lambda>a. init quiet (jit_ok 7) spec_kernel [[0, 2]] (1 / 1000) [9 / 10, 999 / 1000]
        (1 / 100000000) 0 a fresh_adam_sys"
  note T = amsgrad_never_reaches_kernel[of quiet "jit_ok 7" spec_kernel "[[0, 2]]" "1 / 1000"
      "[9 / 10, 999 / 1000]" "1 / 100000000" 0 True fresh_adam_sys False
      "[(id, None, None)]" "mem0 [[0, 2]]"]
  have f: "?init False = Some (Inr (opt0 [[0, 2]]), ready_sys)"
    by (rule init_ready) (simp add: base_accepts_def)
  from T[THEN conjunct2, THEN conjunct2, THEN conjunct1, rule_format, OF f]
  have a: "map amsgrad (param_groups (opt0 [[0, 2]])) = [False]" by simp
  from T[THEN conjunct1] f
  have t: "?init True = Some (Inr (set_amsgrad True (opt0 [[0, 2]])), ready_sys)" by simp
  have b: "map amsgrad (param_groups (set_amsgrad True (opt0 [[0, 2]]))) = [True]"
    using a by (simp add: set_amsgrad_def opt0_def)
  note s = T[THEN conjunct2, THEN conjunct2, THEN conjunct2, THEN conjunct2, THEN conjunct1]
  from f t a b s show ?thesis by simp
qed


end
